theory Spec2Isabelle
  imports Main "HOL-Library.AList" "HOL-Library.DAList" "HOL-Library.Multiset"
begin

section \<open>The file system and the clock, as extension.ts sees them\<close>

text \<open>
  \<open>fs.statSync\<close> either throws or returns a \<open>Stats\<close> object, of which the code reads
  \<open>isDirectory()\<close> and \<open>isFile()\<close>. The file system is outside the program, so it is an
  oracle: the answer to the \<open>n\<close>-th stat call of a run on a path, together with the
  number of milliseconds the wall clock advances during that call. Nothing is assumed
  about the oracle: the same path may be answered differently at two calls.
  The world records the clock and the history of the stat calls made so far.
\<close>

record stats =
  st_isDirectory :: bool
  st_isFile :: bool

type_synonym fs_oracle = "nat \<Rightarrow> string \<Rightarrow> stats option \<times> int"

record world =
  clock :: int
  stat_log :: "(string \<times> stats option) list"

definition statSync :: "fs_oracle \<Rightarrow> string \<Rightarrow> world \<Rightarrow> stats option \<times> world" where
  "statSync fs sdir w =
     (let (r, elapsed) = fs (length (stat_log w)) sdir
      in (r, w\<lparr>clock := clock w + elapsed, stat_log := stat_log w @ [(sdir, r)]\<rparr>))"

text \<open>
  \<open>isDirectory\<close> and \<open>isFile\<close>: the \<open>try\<close> around \<open>fs.statSync\<close> turns every exception
  (\<open>None\<close>) into \<open>false\<close>; a \<open>Stats\<close> object gives \<open>true\<close> only when its own test is true.
\<close>

definition isDirectory :: "fs_oracle \<Rightarrow> string \<Rightarrow> world \<Rightarrow> bool \<times> world" where
  "isDirectory fs sdir w =
     (case statSync fs sdir w of
        (None, w') \<Rightarrow> (False, w')
      | (Some f, w') \<Rightarrow> (if st_isDirectory f then (True, w') else (False, w')))"

definition isFile :: "fs_oracle \<Rightarrow> string \<Rightarrow> world \<Rightarrow> bool \<times> world" where
  "isFile fs sdir w =
     (case statSync fs sdir w of
        (None, w') \<Rightarrow> (False, w')
      | (Some f, w') \<Rightarrow> (if st_isFile f then (True, w') else (False, w')))"

text \<open>
  \<open>performance_now\<close>: outside a browser the function evaluates
  \<open>require('performance-now').performance.now\<close> inside a \<open>try\<close> whose handler returns
  \<open>Date.now()\<close>, and in a browser it returns \<open>Date.now()\<close> directly; the value used by
  \<open>initExtensionSearchPaths\<close> is a reading of the wall clock in milliseconds.
\<close>

definition performance_now :: "world \<Rightarrow> int" where
  "performance_now w = clock w"

section \<open>Search-path construction (initExtensionSearchPaths)\<close>

text \<open>
  \<open>isDirectPath\<close> and \<open>isNetworkPath\<close> are imported from \<open>./opencopybook\<close> and
  \<open>path.join\<close> from Node; none of them is part of extension.ts, so they are parameters
  of the model and every theorem holds for all of them.
\<close>

record platform =
  isDirectPath :: "string \<Rightarrow> bool"
  isNetworkPath :: "string \<Rightarrow> bool"
  path_join :: "string \<Rightarrow> string \<Rightarrow> string"

record ICOBOLSettings =
  disable_unc_copybooks_directories :: bool

text \<open>
  The two module-level arrays and the world. The calls of \<open>logMessage\<close>, and
  \<open>isPathInWorkspace\<close>, which is consulted only to decide on a log line, write to the
  output channel alone and are left out; so is the extension-conflict message box that
  opens the function. The \<open>catch\<close> of step 2 is unreachable here, since none of the modelled
  calls throws.
\<close>

record ext_state =
  fileSearchDirectory :: "string list"
  invalidSearchDirectory :: "string list"
  env :: world

text \<open>Step 1, the body of \<open>for (const ddir of extsdir)\<close>.\<close>

definition step1_dir ::
  "platform \<Rightarrow> ICOBOLSettings \<Rightarrow> fs_oracle \<Rightarrow> string \<Rightarrow> ext_state \<Rightarrow> ext_state" where
  "step1_dir P config fs ddir s =
     (if disable_unc_copybooks_directories config \<and> isNetworkPath P ddir then
        s\<lparr>invalidSearchDirectory := invalidSearchDirectory s @ [ddir]\<rparr>
      else if isDirectPath P ddir then
        (let startTime = performance_now (env s);
             (isdir, w') = isDirectory fs ddir (env s)
         in if isdir then
              (let totalTimeInMS = performance_now w' - startTime
               in if totalTimeInMS \<le> 2000 then
                    s\<lparr>fileSearchDirectory := fileSearchDirectory s @ [ddir], env := w'\<rparr>
                  else
                    s\<lparr>invalidSearchDirectory := invalidSearchDirectory s @ [ddir], env := w'\<rparr>)
            else
              s\<lparr>invalidSearchDirectory := invalidSearchDirectory s @ [ddir], env := w'\<rparr>)
      else s)"

definition step1 ::
  "platform \<Rightarrow> ICOBOLSettings \<Rightarrow> fs_oracle \<Rightarrow> string list \<Rightarrow> ext_state \<Rightarrow> ext_state" where
  "step1 P config fs extsdir s = fold (step1_dir P config fs) extsdir s"

text \<open>Step 2, the body of the inner loop \<open>for (const extdir of extsdir)\<close> for one folder.\<close>

definition step2_extdir ::
  "platform \<Rightarrow> fs_oracle \<Rightarrow> string \<Rightarrow> string \<Rightarrow> ext_state \<Rightarrow> ext_state" where
  "step2_extdir P fs folder extdir s =
     (if isDirectPath P extdir = False then
        (let sdir = path_join P folder extdir;
             (isdir, w') = isDirectory fs sdir (env s)
         in if isdir then
              s\<lparr>fileSearchDirectory := fileSearchDirectory s @ [sdir], env := w'\<rparr>
            else
              s\<lparr>invalidSearchDirectory := invalidSearchDirectory s @ [sdir], env := w'\<rparr>)
      else s)"

text \<open>The body of \<open>for (const folder of ws)\<close>; a folder is given by its \<open>uri.fsPath\<close>.\<close>

definition step2_folder ::
  "platform \<Rightarrow> fs_oracle \<Rightarrow> string list \<Rightarrow> string \<Rightarrow> ext_state \<Rightarrow> ext_state" where
  "step2_folder P fs extsdir folder s =
     fold (step2_extdir P fs folder) extsdir
       (s\<lparr>fileSearchDirectory := fileSearchDirectory s @ [folder]\<rparr>)"

definition step2 ::
  "platform \<Rightarrow> fs_oracle \<Rightarrow> string list \<Rightarrow> string list option \<Rightarrow> ext_state \<Rightarrow> ext_state" where
  "step2 P fs extsdir ws s =
     (case ws of
        None \<Rightarrow> s
      | Some folders \<Rightarrow> fold (step2_folder P fs extsdir) folders s)"

text \<open>
  \<open>Array.prototype.indexOf\<close>: the first index holding the element, or \<open>-1\<close>; and the
  pass \<open>xs.filter((elem, pos) => xs.indexOf(elem) === pos)\<close> that ends the function.
\<close>

fun indexOf :: "'a list \<Rightarrow> 'a \<Rightarrow> int" where
  "indexOf [] e = - 1"
| "indexOf (x # xs) e =
     (if x = e then 0 else (let i = indexOf xs e in if i = - 1 then - 1 else i + 1))"

definition filter_indexOf_pos :: "'a list \<Rightarrow> 'a list" where
  "filter_indexOf_pos xs =
     map fst (filter (\<lambda>(elem, pos). indexOf xs elem = int pos) (zip xs [0..<length xs]))"

text \<open>
  The whole function. Both arrays are emptied first (\<open>length = 0\<close>), whatever an earlier
  call left in them. \<open>extsdir\<close> is the configured list of copybook directories and \<open>ws\<close>
  the result of \<open>getWorkspaceFolders()\<close> (\<open>None\<close> for \<open>undefined\<close>).
\<close>

definition initExtensionSearchPaths ::
  "platform \<Rightarrow> ICOBOLSettings \<Rightarrow> fs_oracle \<Rightarrow> string list \<Rightarrow> string list option \<Rightarrow>
   ext_state \<Rightarrow> ext_state" where
  "initExtensionSearchPaths P config fs extsdir ws s0 =
     (let s1 = s0\<lparr>fileSearchDirectory := [], invalidSearchDirectory := []\<rparr>;
          s2 = step1 P config fs extsdir s1;
          s3 = step2 P fs extsdir ws s2
      in s3\<lparr>fileSearchDirectory := filter_indexOf_pos (fileSearchDirectory s3),
            invalidSearchDirectory := filter_indexOf_pos (invalidSearchDirectory s3)\<rparr>)"

definition getCombinedCopyBookSearchPath :: "ext_state \<Rightarrow> string list" where
  "getCombinedCopyBookSearchPath s = fileSearchDirectory s"

text \<open>The state of the two arrays before the final filter pass.\<close>

definition before_filter ::
  "platform \<Rightarrow> ICOBOLSettings \<Rightarrow> fs_oracle \<Rightarrow> string list \<Rightarrow> string list option \<Rightarrow>
   ext_state \<Rightarrow> ext_state" where
  "before_filter P config fs extsdir ws s0 =
     step2 P fs extsdir ws
       (step1 P config fs extsdir (s0\<lparr>fileSearchDirectory := [], invalidSearchDirectory := []\<rparr>))"

text \<open>
  Names for the three ways step 1 treats a configured directory, and for the paths
  step 2 can push: every folder, and every folder joined with a configured directory that
  is not direct.
\<close>

definition unc_excluded :: "platform \<Rightarrow> ICOBOLSettings \<Rightarrow> string \<Rightarrow> bool" where
  "unc_excluded P config ddir \<longleftrightarrow>
     disable_unc_copybooks_directories config \<and> isNetworkPath P ddir"

definition step1_checks :: "platform \<Rightarrow> ICOBOLSettings \<Rightarrow> string \<Rightarrow> bool" where
  "step1_checks P config ddir \<longleftrightarrow> \<not> unc_excluded P config ddir \<and> isDirectPath P ddir"

definition step1_handles :: "platform \<Rightarrow> ICOBOLSettings \<Rightarrow> string \<Rightarrow> bool" where
  "step1_handles P config ddir \<longleftrightarrow> unc_excluded P config ddir \<or> isDirectPath P ddir"

definition joined_paths :: "platform \<Rightarrow> string list \<Rightarrow> string \<Rightarrow> string list" where
  "joined_paths P extsdir folder =
     map (path_join P folder) (filter (\<lambda>extdir. isDirectPath P extdir = False) extsdir)"

definition step2_paths :: "platform \<Rightarrow> string list \<Rightarrow> string list option \<Rightarrow> string list" where
  "step2_paths P extsdir ws =
     (case ws of
        None \<Rightarrow> []
      | Some folders \<Rightarrow> concat (map (\<lambda>folder. folder # joined_paths P extsdir folder) folders))"

definition step2_checked :: "platform \<Rightarrow> string list \<Rightarrow> string list option \<Rightarrow> string list" where
  "step2_checked P extsdir ws =
     (case ws of
        None \<Rightarrow> []
      | Some folders \<Rightarrow> concat (map (joined_paths P extsdir) folders))"

text \<open>What a stat answer means to \<open>isDirectory\<close>.\<close>

definition is_dir_answer :: "stats option \<Rightarrow> bool" where
  "is_dir_answer r = (case r of None \<Rightarrow> False | Some f \<Rightarrow> st_isDirectory f)"

text \<open>
  The invariant behind the error handling: from the \<open>n\<close>-th stat call on, every path
  whose answer did not say "directory" (an exception included) is in the invalid list.
\<close>

definition failing_recorded :: "nat \<Rightarrow> ext_state \<Rightarrow> bool" where
  "failing_recorded n s \<longleftrightarrow>
     n \<le> length (stat_log (env s)) \<and>
     (\<forall>(p, r) \<in> set (drop n (stat_log (env s))).
        \<not> is_dir_answer r \<longrightarrow> p \<in> set (invalidSearchDirectory s))"

section \<open>Unreferenced-name diagnostics (CobolUsageProvider)\<close>

text \<open>
  \<open>String.prototype.toLowerCase\<close> belongs to the JavaScript library; its case tables
  cover every cased letter of Unicode and are not part of the repository. It is therefore
  a parameter, written \<open>toLowerCase\<close>, of every definition that calls it, and every
  theorem holds whatever function it is. \<open>startsWith\<close> compares code units.
\<close>

definition startsWith :: "string \<Rightarrow> string \<Rightarrow> bool" where
  "startsWith s searchString \<longleftrightarrow> take (length searchString) s = searchString"

text \<open>
  The data \<open>updateDiagnostics\<close> reads. \<open>COBOLToken\<close>, \<open>COBOLQuickParse\<close> and
  \<open>SharedSourceReferences\<close> are declared in other modules; the records hold the fields
  this file uses. \<open>paragraphs\<close> and \<open>sections\<close> are JavaScript Maps: a Map holds each
  key once and is iterated in insertion order, so each is a list of (key, token) pairs
  with distinct keys, and \<open>DAList.impl_of\<close> gives the entries in order. The field
  \<open>filename\<close> of the parse is named \<open>qp_filename\<close>, since a token has a field of the
  same name. The values stored in
  \<open>targetReferences\<close> are never read, only the keys are looked up, so their type is a
  parameter.
\<close>

record COBOLToken =
  tokenName :: string
  startLine :: nat
  startColumn :: nat
  filename :: string
  inProcedureDivision :: bool

record COBOLQuickParse =
  qp_filename :: string
  paragraphs :: "(string, COBOLToken) alist"
  sections :: "(string, COBOLToken) alist"

record 'r SharedSourceReferences =
  targetReferences :: "string \<rightharpoonup> 'r"

text \<open>
  The editor's side: a document (of which the code reads \<open>fileName\<close>, \<open>version\<close>,
  \<open>uri\<close> and \<open>offsetAt\<close>), ranges, diagnostics and code actions. A diagnostic's \<open>code\<close>
  is optional; a code that is not a string is represented by what \<open>toString()\<close> makes
  of it.
\<close>

record TextDocument =
  fileName :: string
  version :: int
  uri :: string
  offsetAt :: "nat \<times> nat \<Rightarrow> nat"

datatype DiagnosticSeverity = Error | Warning | Information | Hint

record Range =
  range_start :: "nat \<times> nat"
  range_end :: "nat \<times> nat"

record Diagnostic =
  diag_range :: Range
  message :: string
  severity :: DiagnosticSeverity
  code :: "string option"

record CodeAction =
  title :: string
  diagnostics :: "Diagnostic list"
  command_title :: string
  command :: string
  arguments :: "string \<times> nat \<times> string option"
  kind :: string

text \<open>
  \<open>diagRefs\<close> is a \<open>Map<string, Diagnostic[]>\<close> from file name to the diagnostics of
  that file. Both loops add a diagnostic the same way: if the map has the file, push onto
  its array, otherwise set a new one-element array. The diagnostic collection is keyed by
  \<open>Uri.file(f)\<close>, which is taken to be one-to-one, so it is keyed by file name as well.
\<close>

type_synonym diag_map = "(string \<times> Diagnostic list) list"

definition push_diagnostic :: "string \<Rightarrow> Diagnostic \<Rightarrow> diag_map \<Rightarrow> diag_map" where
  "push_diagnostic f d diagRefs =
     (if map_of diagRefs f \<noteq> None then
        (case map_of diagRefs f of
           Some arr \<Rightarrow> AList.update f (arr @ [d]) diagRefs
         | None \<Rightarrow> diagRefs)
      else AList.update f [d] diagRefs)"

text \<open>
  The range and the two diagnostics built in the loop bodies: the range covers the
  token's name on its line, the message and the code carry the key as declared.
\<close>

definition token_range :: "COBOLToken \<Rightarrow> Range" where
  "token_range token =
     \<lparr>range_start = (startLine token, startColumn token),
      range_end = (startLine token, startColumn token + length (tokenName token))\<rparr>"

definition paragraph_diagnostic :: "DiagnosticSeverity \<Rightarrow> string \<Rightarrow> COBOLToken \<Rightarrow> Diagnostic" where
  "paragraph_diagnostic sev key token =
     \<lparr>diag_range = token_range token,
      message = key @ '' paragraph is not referenced'',
      severity = sev,
      code = Some (''noref('' @ key @ '')'')\<rparr>"

definition section_diagnostic :: "DiagnosticSeverity \<Rightarrow> string \<Rightarrow> COBOLToken \<Rightarrow> Diagnostic" where
  "section_diagnostic sev key token =
     \<lparr>diag_range = token_range token,
      message = key @ '' section is not referenced'',
      severity = sev,
      code = Some (''noref('' @ key @ '')'')\<rparr>"

text \<open>
  The bodies of \<open>for (let [key, token] of qp.paragraphs)\<close> and of
  \<open>for (let [key, token] of qp.sections)\<close>. Only the second reads
  \<open>token.inProcedureDivision\<close>.
\<close>

definition paragraph_step ::
  "(string \<Rightarrow> string) \<Rightarrow> 'r SharedSourceReferences \<Rightarrow> DiagnosticSeverity \<Rightarrow>
   string \<times> COBOLToken \<Rightarrow> diag_map \<Rightarrow> diag_map" where
  "paragraph_step toLowerCase sourceRefs sev entry diagRefs =
     (case entry of (key, token) \<Rightarrow>
        (let workLower = toLowerCase key
         in if (targetReferences sourceRefs workLower \<noteq> None) = False then
              push_diagnostic (filename token) (paragraph_diagnostic sev key token) diagRefs
            else diagRefs))"

definition section_step ::
  "(string \<Rightarrow> string) \<Rightarrow> 'r SharedSourceReferences \<Rightarrow> DiagnosticSeverity \<Rightarrow>
   string \<times> COBOLToken \<Rightarrow> diag_map \<Rightarrow> diag_map" where
  "section_step toLowerCase sourceRefs sev entry diagRefs =
     (case entry of (key, token) \<Rightarrow>
        (let workLower = toLowerCase key
         in if inProcedureDivision token then
              (if (targetReferences sourceRefs workLower \<noteq> None) = False then
                 push_diagnostic (filename token) (section_diagnostic sev key token) diagRefs
               else diagRefs)
            else diagRefs))"

text \<open>
  The provider object. \<open>scans\<close> is not a field of the class: it counts the
  constructions of a \<open>COBOLQuickParse\<close>, so that "no new scan" can be stated. The
  scanner itself lives in another module; it is a parameter, and its result may depend on
  how many scans came before (it reads files and settings that can change), so nothing
  is assumed about two scans of one document agreeing.
\<close>

record 'r CobolUsageProvider =
  enabled :: bool
  collection :: diag_map
  diagCollect :: DiagnosticSeverity
  current :: "COBOLQuickParse option"
  currentVersion :: "int option"
  sourceRefs :: "'r SharedSourceReferences option"
  scans :: nat

type_synonym 'r scanner = "nat \<Rightarrow> TextDocument \<Rightarrow> COBOLQuickParse \<times> 'r SharedSourceReferences"

definition new_CobolUsageProvider :: "diag_map \<Rightarrow> bool \<Rightarrow> 'r CobolUsageProvider" where
  "new_CobolUsageProvider c e =
     \<lparr>enabled = e, collection = c, diagCollect = Information, current = None,
      currentVersion = None, sourceRefs = None, scans = 0\<rparr>"

text \<open>
  \<open>setupCOBOLQuickParse\<close>: forget the parse of another file, then scan unless a parse
  of this version is at hand.
\<close>

definition setupCOBOLQuickParse ::
  "'r scanner \<Rightarrow> TextDocument \<Rightarrow> 'r CobolUsageProvider \<Rightarrow> 'r CobolUsageProvider" where
  "setupCOBOLQuickParse scan document s =
     (let s1 = (case current s of
                  None \<Rightarrow> s
                | Some c \<Rightarrow> if qp_filename c \<noteq> fileName document then s\<lparr>current := None\<rparr> else s)
      in if current s1 = None \<or> currentVersion s1 \<noteq> Some (version document) then
           (case scan (scans s1) document of (qp, refs) \<Rightarrow>
              s1\<lparr>sourceRefs := Some refs, current := Some qp,
                 currentVersion := Some (version document), scans := scans s1 + 1\<rparr>)
         else s1)"

text \<open>
  \<open>updateDiagnostics\<close>: nothing happens when the provider is disabled or when no parse
  is at hand after the setup; otherwise the collection is cleared and set, file by file,
  to what the two loops collected.
\<close>

definition updateDiagnostics ::
  "(string \<Rightarrow> string) \<Rightarrow> 'r scanner \<Rightarrow> TextDocument \<Rightarrow> 'r CobolUsageProvider \<Rightarrow>
   'r CobolUsageProvider" where
  "updateDiagnostics toLowerCase scan document s =
     (if enabled s = False then s
      else
        (let s1 = setupCOBOLQuickParse scan document s
         in case (sourceRefs s1, current s1) of
              (Some refs, Some qp) \<Rightarrow>
                (let diagRefs =
                       fold (section_step toLowerCase refs (diagCollect s1))
                         (DAList.impl_of (sections qp))
                         (fold (paragraph_step toLowerCase refs (diagCollect s1))
                            (DAList.impl_of (paragraphs qp)) [])
                 in s1\<lparr>collection := fold (\<lambda>(f, value). AList.update f value) diagRefs []\<rparr>)
            | _ \<Rightarrow> s1))"

text \<open>
  Names for the statements: all diagnostics of a collection, and the table entries
  the two loops flag.
\<close>

definition all_diagnostics :: "diag_map \<Rightarrow> Diagnostic list" where
  "all_diagnostics c = concat (map snd c)"

definition unreferenced_paragraphs ::
  "(string \<Rightarrow> string) \<Rightarrow> 'r SharedSourceReferences \<Rightarrow> COBOLQuickParse \<Rightarrow>
   (string \<times> COBOLToken) list" where
  "unreferenced_paragraphs toLowerCase refs qp =
     filter (\<lambda>(key, token). targetReferences refs (toLowerCase key) = None)
       (DAList.impl_of (paragraphs qp))"

definition unreferenced_sections ::
  "(string \<Rightarrow> string) \<Rightarrow> 'r SharedSourceReferences \<Rightarrow> COBOLQuickParse \<Rightarrow>
   (string \<times> COBOLToken) list" where
  "unreferenced_sections toLowerCase refs qp =
     filter (\<lambda>(key, token). inProcedureDivision token \<and> targetReferences refs (toLowerCase key) = None)
       (DAList.impl_of (sections qp))"

section \<open>What the scanner supplies\<close>

text \<open>
  Modelled from the spec: \<open>SharedSourceReferences\<close> is filled by the scanner
  (\<open>./cobolquickparse\<close>), which is not among the sources. The spec describes it as "the
  set of paragraph/section names referenced anywhere (PERFORM/GOTO targets)", "keyed by
  lowercase name (COBOL names are case-insensitive)". So the reference set of a list of
  referenced names, each with what is recorded for it, holds every name under its
  lowercased form.
\<close>

definition shared_references ::
  "(string \<Rightarrow> string) \<Rightarrow> (string \<times> 'r) list \<Rightarrow> 'r SharedSourceReferences" where
  "shared_references toLowerCase targets =
     \<lparr>targetReferences = map_of (map (\<lambda>(name, r). (toLowerCase name, r)) targets)\<rparr>"

text \<open>
  Modelled from the spec: the paragraph table is built by the scanner as well. The
  spec's glossary calls paragraphs "structural units of COBOL procedure organization",
  and its reference diagnostics work on "the paragraph/section table" of
  "procedure-division names": the paragraph table holds tokens of the procedure division
  only. The section table has no such property, since the other divisions have sections
  too; \<open>updateDiagnostics\<close> tests their flag itself.
\<close>

definition paragraphs_in_procedure_division :: "COBOLQuickParse \<Rightarrow> bool" where
  "paragraphs_in_procedure_division qp \<longleftrightarrow>
     list_all (\<lambda>(key, token). inProcedureDivision token) (DAList.impl_of (paragraphs qp))"

section \<open>The quick fix (CobolUsageActionFixer)\<close>

text \<open>
  \<open>provideCodeActions\<close> walks \<open>context.diagnostics\<close>; it skips a diagnostic when
  \<open>diagnostic.code !== undefined && diagnostic.code.toString().startsWith("noref") === false\<close>
  and pushes a "Comment out" action otherwise.
\<close>

definition comment_out_action :: "TextDocument \<Rightarrow> Diagnostic \<Rightarrow> CodeAction" where
  "comment_out_action document diagnostic =
     \<lparr>title = ''Comment out '' @ [CHR 0x27] @ message diagnostic @ [CHR 0x27],
      diagnostics = [diagnostic],
      command_title = ''Comment out'',
      command = ''editor.action.addCommentLine'',
      arguments = (uri document, offsetAt document (range_start (diag_range diagnostic)),
                   code diagnostic),
      kind = ''quickfix''\<rparr>"

fun provideCodeActions :: "TextDocument \<Rightarrow> Diagnostic list \<Rightarrow> CodeAction list" where
  "provideCodeActions document [] = []"
| "provideCodeActions document (diagnostic # rest) =
     (if (case code diagnostic of
            None \<Rightarrow> False
          | Some c \<Rightarrow> startsWith c ''noref'' = False)
      then provideCodeActions document rest
      else comment_out_action document diagnostic # provideCodeActions document rest)"

section \<open>The metadata cache at activation and deactivation\<close>

text \<open>
  What \<open>activate\<close> and \<open>deactivateAsync\<close> do to the cache, as the list of calls they
  make to \<open>InMemoryGlobalCachesHelper\<close>. Of \<open>activate\<close> only the lines under "load the
  cache if we can" touch the cache; the rest of the function registers commands and
  providers and is not modelled. \<open>cacheDirectory\<close> is the result of
  \<open>VSQuickCOBOLParse.getCacheDirectory()\<close> (\<open>None\<close> for \<open>null\<close>) and \<open>isCachingEnabled\<close> the
  result of \<open>VSCOBOLConfiguration.isCachingEnabled()\<close>.
\<close>

datatype cache_call =
    LoadInMemoryGlobalSymbolCaches string
  | LoadInMemoryGlobalFileCache string
  | SaveInMemoryGlobalCaches "string option"

definition activate :: "string option \<Rightarrow> cache_call list" where
  "activate cacheDirectory =
     (case cacheDirectory of
        None \<Rightarrow> []
      | Some dir \<Rightarrow>
          if length dir > 0
          then [LoadInMemoryGlobalSymbolCaches dir, LoadInMemoryGlobalFileCache dir]
          else [])"

definition deactivateAsync :: "bool \<Rightarrow> string option \<Rightarrow> cache_call list" where
  "deactivateAsync isCachingEnabled cacheDirectory =
     (if isCachingEnabled then [SaveInMemoryGlobalCaches cacheDirectory] else [])"

definition deactivate :: "bool \<Rightarrow> string option \<Rightarrow> cache_call list" where
  "deactivate isCachingEnabled cacheDirectory = deactivateAsync isCachingEnabled cacheDirectory"

definition is_save :: "cache_call \<Rightarrow> bool" where
  "is_save c = (case c of SaveInMemoryGlobalCaches _ \<Rightarrow> True | _ \<Rightarrow> False)"

section \<open>Example inputs\<close>

text \<open>
  Modelled from the spec: \<open>isDirectPath\<close> and \<open>isNetworkPath\<close> belong to
  opencopybook.ts, which is not among the sources. The spec speaks of direct (absolute)
  directories and of network paths; in this instance a path is direct when it starts
  with a slash or a backslash, and a network (UNC) path when it starts with two
  backslashes; \<open>path.join\<close> is reduced to putting a slash between its arguments. The
  instance serves the closed examples only: every general theorem takes the platform as
  a parameter.
\<close>

definition sample_isDirectPath :: "string \<Rightarrow> bool" where
  "sample_isDirectPath dir =
     (case dir of [] \<Rightarrow> False | c # _ \<Rightarrow> c = CHR ''/'' \<or> c = CHR 0x5C)"

definition sample_isNetworkPath :: "string \<Rightarrow> bool" where
  "sample_isNetworkPath dir =
     (case dir of c1 # c2 # _ \<Rightarrow> c1 = CHR 0x5C \<and> c2 = CHR 0x5C | _ \<Rightarrow> False)"

definition sample_join :: "string \<Rightarrow> string \<Rightarrow> string" where
  "sample_join folder extdir = folder @ ''/'' @ extdir"

definition sample_platform :: platform where
  "sample_platform =
     \<lparr>isDirectPath = sample_isDirectPath, isNetworkPath = sample_isNetworkPath,
      path_join = sample_join\<rparr>"

text \<open>
  A fresh state, two settings, and two file systems: one where every path is a
  directory that takes 2001 ms to check, and one where \<open>/slow\<close> takes 2500 ms,
  \<open>/gone\<close> makes \<open>statSync\<close> throw and everything else is a directory found in 3 ms.
\<close>

definition fresh_state :: ext_state where
  "fresh_state = \<lparr>fileSearchDirectory = [], invalidSearchDirectory = [],
            env = \<lparr>clock = 0, stat_log = []\<rparr>\<rparr>"

definition a_directory :: stats where
  "a_directory = \<lparr>st_isDirectory = True, st_isFile = False\<rparr>"

definition slow_fs :: fs_oracle where
  "slow_fs n p = (Some a_directory, 2001)"

definition plain_settings :: ICOBOLSettings where
  "plain_settings = \<lparr>disable_unc_copybooks_directories = False\<rparr>"

definition unc_disabled_settings :: ICOBOLSettings where
  "unc_disabled_settings = \<lparr>disable_unc_copybooks_directories = True\<rparr>"

definition mixed_fs :: fs_oracle where
  "mixed_fs n p =
     (if p = ''/slow'' then (Some a_directory, 2500)
      else if p = ''/gone'' then (None, 1)
      else (Some a_directory, 3))"

definition unc_share :: string where
  "unc_share = [CHR 0x5C, CHR 0x5C] @ ''srv''"

text \<open>
  For the examples, \<open>toLowerCase\<close> on ASCII text: the letters \<open>A\<close> to \<open>Z\<close> (codes 65
  to 90) get bit 5 set, every other character stays.
\<close>

fun ascii_toLowerCase_char :: "char \<Rightarrow> char" where
  "ascii_toLowerCase_char (Char b0 b1 b2 b3 b4 b5 b6 b7) =
     (let n = (of_char (Char b0 b1 b2 b3 b4 b5 b6 b7) :: nat)
      in if 65 \<le> n \<and> n \<le> 90 then Char b0 b1 b2 b3 b4 True b6 b7
         else Char b0 b1 b2 b3 b4 b5 b6 b7)"

definition ascii_toLowerCase :: "string \<Rightarrow> string" where
  "ascii_toLowerCase s = map ascii_toLowerCase_char s"

text \<open>
  A document and what a scan of it might return. The program performs \<open>MAIN-PARA\<close>
  and \<open>EXIT-SECTION\<close>, written in capitals, and declares the paragraphs \<open>Main-Para\<close>
  and \<open>Unused-Para\<close> and the sections \<open>Exit-Section\<close> and \<open>Init-Section\<close> in mixed case;
  \<open>Working-Storage\<close> is a section outside the procedure division. A diagnostic of
  another source, with no code, and a provider.
\<close>

definition sample_document :: TextDocument where
  "sample_document =
     \<lparr>fileName = ''/ws/prog.cbl'', version = 1, uri = ''file:///ws/prog.cbl'',
      offsetAt = (\<lambda>(line, character). line * 80 + character)\<rparr>"

definition sample_token :: "string \<Rightarrow> nat \<Rightarrow> bool \<Rightarrow> COBOLToken" where
  "sample_token name line pd =
     \<lparr>tokenName = name, startLine = line, startColumn = 7, filename = ''/ws/prog.cbl'',
      inProcedureDivision = pd\<rparr>"

definition sample_scan :: "nat list scanner" where
  "sample_scan n document =
     (\<lparr>qp_filename = fileName document,
       paragraphs = DAList.Alist
         [(''Main-Para'', sample_token ''Main-Para'' 10 True),
          (''Unused-Para'', sample_token ''Unused-Para'' 20 True)],
       sections = DAList.Alist
         [(''Exit-Section'', sample_token ''Exit-Section'' 30 True),
          (''Init-Section'', sample_token ''Init-Section'' 9 True),
          (''Working-Storage'', sample_token ''Working-Storage'' 5 False)]\<rparr>,
      shared_references ascii_toLowerCase [(''MAIN-PARA'', [12]), (''EXIT-SECTION'', [13])])"

definition foreign_diagnostic :: Diagnostic where
  "foreign_diagnostic =
     \<lparr>diag_range = \<lparr>range_start = (3, 0), range_end = (3, 5)\<rparr>,
      message = ''spelling'', severity = Warning, code = None\<rparr>"

definition enabled_provider :: "nat list CobolUsageProvider" where
  "enabled_provider = new_CobolUsageProvider [] True"

section \<open>Evaluation rules for the examples\<close>

lemmas run_simps = initExtensionSearchPaths_def step1_def step2_def step1_dir_def
  step2_extdir_def step2_folder_def isDirectory_def statSync_def performance_now_def
  filter_indexOf_pos_def sample_platform_def sample_isDirectPath_def sample_isNetworkPath_def
  sample_join_def fresh_state_def a_directory_def slow_fs_def plain_settings_def
  unc_disabled_settings_def mixed_fs_def unc_share_def unc_excluded_def step1_checks_def
  step1_handles_def step2_paths_def joined_paths_def step2_checked_def Let_def

lemmas sample_simps = sample_document_def sample_token_def sample_scan_def
  foreign_diagnostic_def enabled_provider_def new_CobolUsageProvider_def
  updateDiagnostics_def setupCOBOLQuickParse_def paragraph_step_def section_step_def
  push_diagnostic_def paragraph_diagnostic_def section_diagnostic_def token_range_def
  all_diagnostics_def ascii_toLowerCase_def shared_references_def startsWith_def
  comment_out_action_def paragraphs_in_procedure_division_def DAList.impl_of_Alist Let_def

section \<open>Facts about the filter pass\<close>

lemma indexOf_ge: "- 1 \<le> indexOf xs e"
  by (induction xs) (auto simp: Let_def)

lemma indexOf_pos_iff:
  "indexOf xs e = int pos \<longleftrightarrow> pos < length xs \<and> xs ! pos = e \<and> e \<notin> set (take pos xs)"
proof (induction xs arbitrary: pos)
  case Nil
  then show ?case by simp
next
  case (Cons x xs)
  show ?case
  proof (cases pos)
    case 0
    have "0 \<le> indexOf xs e + 1" using indexOf_ge [of xs e] by simp
    then have "indexOf xs e \<noteq> - 1 \<Longrightarrow> x \<noteq> e \<Longrightarrow> indexOf xs e + 1 \<noteq> 0"
      using indexOf_ge [of xs e] by linarith
    with 0 show ?thesis by (auto simp: Let_def)
  next
    case (Suc k)
    have "indexOf xs e = int k \<longleftrightarrow> k < length xs \<and> xs ! k = e \<and> e \<notin> set (take k xs)"
      by (rule Cons.IH)
    moreover have "indexOf xs e + 1 = int (Suc k) \<longleftrightarrow> indexOf xs e = int k" by auto
    ultimately show ?thesis using Suc by (auto simp: Let_def)
  qed
qed

lemma zip_upt_nth: "zip xs [0..<length xs] = map (\<lambda>i. (xs ! i, i)) [0..<length xs]"
  by (rule nth_equalityI) auto

lemma filter_indexOf_pos_nth:
  "filter_indexOf_pos xs =
     map (\<lambda>i. xs ! i) (filter (\<lambda>i. xs ! i \<notin> set (take i xs)) [0..<length xs])"
proof -
  have "filter (\<lambda>(elem, pos). indexOf xs elem = int pos) (map (\<lambda>i. (xs ! i, i)) [0..<length xs])
      = map (\<lambda>i. (xs ! i, i)) (filter (\<lambda>i. xs ! i \<notin> set (take i xs)) [0..<length xs])"
    unfolding filter_map by (rule arg_cong [where f = "map _"], rule filter_cong)
      (auto simp: indexOf_pos_iff)
  then show ?thesis
    by (simp add: filter_indexOf_pos_def zip_upt_nth comp_def)
qed

lemma filter_indexOf_pos_Nil [simp]: "filter_indexOf_pos [] = []"
  by (simp add: filter_indexOf_pos_def)

lemma filter_indexOf_pos_snoc:
  "filter_indexOf_pos (xs @ [x]) =
     (if x \<in> set xs then filter_indexOf_pos xs else filter_indexOf_pos xs @ [x])"
proof -
  have a: "filter (\<lambda>i. (xs @ [x]) ! i \<notin> set (take i (xs @ [x]))) [0..<length xs]
         = filter (\<lambda>i. xs ! i \<notin> set (take i xs)) [0..<length xs]"
    by (rule filter_cong) (auto simp: nth_append)
  have b: "map (\<lambda>i. (xs @ [x]) ! i) (filter (\<lambda>i. xs ! i \<notin> set (take i xs)) [0..<length xs])
         = map (\<lambda>i. xs ! i) (filter (\<lambda>i. xs ! i \<notin> set (take i xs)) [0..<length xs])"
    by (rule map_cong) (auto simp: nth_append)
  have c: "map (\<lambda>i. (xs @ [x]) ! i)
             (filter (\<lambda>i. (xs @ [x]) ! i \<notin> set (take i (xs @ [x]))) [0..<length xs])
         = map (\<lambda>i. xs ! i) (filter (\<lambda>i. xs ! i \<notin> set (take i xs)) [0..<length xs])"
    by (simp only: a b)
  have d: "[0..<length (xs @ [x])] = [0..<length xs] @ [length xs]"
    by simp
  show ?thesis
    unfolding filter_indexOf_pos_nth [of "xs @ [x]"] filter_indexOf_pos_nth [of xs]
      d filter_append map_append c
    by simp
qed

lemma set_filter_indexOf_pos [simp]: "set (filter_indexOf_pos xs) = set xs"
  by (induction xs rule: rev_induct) (auto simp: filter_indexOf_pos_snoc)

lemma distinct_filter_indexOf_pos [simp]: "distinct (filter_indexOf_pos xs)"
  by (induction xs rule: rev_induct) (auto simp: filter_indexOf_pos_snoc)

lemma filter_indexOf_pos_remdups: "filter_indexOf_pos xs = rev (remdups (rev xs))"
  by (induction xs rule: rev_induct) (auto simp: filter_indexOf_pos_snoc)

section \<open>Facts about the two steps\<close>

lemma fold_invariant:
  assumes "I s" and "\<And>x t. x \<in> set xs \<Longrightarrow> I t \<Longrightarrow> I (f x t)"
  shows "I (fold f xs s)"
  using assms by (induction xs arbitrary: s) auto

lemma isDirectory_eq:
  "isDirectory fs p w =
     (is_dir_answer (fst (fs (length (stat_log w)) p)),
      w\<lparr>clock := clock w + snd (fs (length (stat_log w)) p),
        stat_log := stat_log w @ [(p, fst (fs (length (stat_log w)) p))]\<rparr>)"
  by (auto simp: isDirectory_def statSync_def is_dir_answer_def split: prod.splits option.splits)

lemma step1_dir_cases:
  "step1_dir P config fs d s =
     (if unc_excluded P config d then
        s\<lparr>invalidSearchDirectory := invalidSearchDirectory s @ [d]\<rparr>
      else if isDirectPath P d then
        (if fst (isDirectory fs d (env s)) \<and>
            clock (snd (isDirectory fs d (env s))) - clock (env s) \<le> 2000
         then s\<lparr>fileSearchDirectory := fileSearchDirectory s @ [d],
                env := snd (isDirectory fs d (env s))\<rparr>
         else s\<lparr>invalidSearchDirectory := invalidSearchDirectory s @ [d],
                env := snd (isDirectory fs d (env s))\<rparr>)
      else s)"
  by (simp add: step1_dir_def unc_excluded_def performance_now_def Let_def split: prod.splits)

lemma step2_extdir_cases:
  "step2_extdir P fs folder e s =
     (if isDirectPath P e then s
      else if fst (isDirectory fs (path_join P folder e) (env s))
        then s\<lparr>fileSearchDirectory := fileSearchDirectory s @ [path_join P folder e],
               env := snd (isDirectory fs (path_join P folder e) (env s))\<rparr>
        else s\<lparr>invalidSearchDirectory := invalidSearchDirectory s @ [path_join P folder e],
               env := snd (isDirectory fs (path_join P folder e) (env s))\<rparr>)"
  by (simp add: step2_extdir_def Let_def split: prod.splits)

lemma step1_append:
  "step1 P config fs (xs @ ys) s = step1 P config fs ys (step1 P config fs xs s)"
  by (simp add: step1_def)

lemma step1_Cons:
  "step1 P config fs (x # xs) s = step1 P config fs xs (step1_dir P config fs x s)"
  by (simp add: step1_def)

subsection \<open>Both lists only grow, and only by the paths a step handles\<close>

lemma step1_dir_file_bounds:
  "set (fileSearchDirectory s) \<subseteq> set (fileSearchDirectory (step1_dir P config fs d s)) \<and>
   set (fileSearchDirectory (step1_dir P config fs d s)) \<subseteq> insert d (set (fileSearchDirectory s))"
  by (auto simp: step1_dir_cases)

lemma step1_dir_invalid_bounds:
  "set (invalidSearchDirectory s) \<subseteq> set (invalidSearchDirectory (step1_dir P config fs d s)) \<and>
   set (invalidSearchDirectory (step1_dir P config fs d s)) \<subseteq> insert d (set (invalidSearchDirectory s))"
  by (auto simp: step1_dir_cases)

lemma step1_file_bounds:
  "set (fileSearchDirectory s) \<subseteq> set (fileSearchDirectory (step1 P config fs xs s)) \<and>
   set (fileSearchDirectory (step1 P config fs xs s)) \<subseteq> set (fileSearchDirectory s) \<union> set xs"
  unfolding step1_def
proof (rule fold_invariant [where I = "\<lambda>t. set (fileSearchDirectory s) \<subseteq> set (fileSearchDirectory t) \<and>
      set (fileSearchDirectory t) \<subseteq> set (fileSearchDirectory s) \<union> set xs"], goal_cases)
  case 1
  show ?case by simp
next
  case (2 x t)
  then show ?case
    using step1_dir_file_bounds [of t P config fs x] by blast
qed

lemma step1_invalid_bounds:
  "set (invalidSearchDirectory s) \<subseteq> set (invalidSearchDirectory (step1 P config fs xs s)) \<and>
   set (invalidSearchDirectory (step1 P config fs xs s)) \<subseteq> set (invalidSearchDirectory s) \<union> set xs"
  unfolding step1_def
proof (rule fold_invariant [where I = "\<lambda>t. set (invalidSearchDirectory s) \<subseteq> set (invalidSearchDirectory t) \<and>
      set (invalidSearchDirectory t) \<subseteq> set (invalidSearchDirectory s) \<union> set xs"], goal_cases)
  case 1
  show ?case by simp
next
  case (2 x t)
  then show ?case
    using step1_dir_invalid_bounds [of t P config fs x] by blast
qed

lemma step2_folder_bounds:
  "set (fileSearchDirectory s) \<subseteq> set (fileSearchDirectory (step2_folder P fs xs folder s)) \<and>
   set (fileSearchDirectory (step2_folder P fs xs folder s))
     \<subseteq> set (fileSearchDirectory s) \<union> set (folder # joined_paths P xs folder) \<and>
   set (invalidSearchDirectory s) \<subseteq> set (invalidSearchDirectory (step2_folder P fs xs folder s)) \<and>
   set (invalidSearchDirectory (step2_folder P fs xs folder s))
     \<subseteq> set (invalidSearchDirectory s) \<union> set (joined_paths P xs folder)"
  unfolding step2_folder_def
proof (rule fold_invariant [where I = "\<lambda>t. set (fileSearchDirectory s) \<subseteq> set (fileSearchDirectory t) \<and>
      set (fileSearchDirectory t) \<subseteq> set (fileSearchDirectory s) \<union> set (folder # joined_paths P xs folder) \<and>
      set (invalidSearchDirectory s) \<subseteq> set (invalidSearchDirectory t) \<and>
      set (invalidSearchDirectory t) \<subseteq> set (invalidSearchDirectory s) \<union> set (joined_paths P xs folder)"],
    goal_cases)
  case 1
  show ?case by auto
next
  case (2 x t)
  then show ?case
    by (auto simp: step2_extdir_cases joined_paths_def)
qed

lemma step2_bounds:
  "set (fileSearchDirectory s) \<subseteq> set (fileSearchDirectory (step2 P fs xs ws s)) \<and>
   set (fileSearchDirectory (step2 P fs xs ws s))
     \<subseteq> set (fileSearchDirectory s) \<union> set (step2_paths P xs ws) \<and>
   set (invalidSearchDirectory s) \<subseteq> set (invalidSearchDirectory (step2 P fs xs ws s)) \<and>
   set (invalidSearchDirectory (step2 P fs xs ws s))
     \<subseteq> set (invalidSearchDirectory s) \<union> set (step2_paths P xs ws)"
proof (cases ws)
  case None
  then show ?thesis by (simp add: step2_def)
next
  case (Some folders)
  have "set (fileSearchDirectory s) \<subseteq> set (fileSearchDirectory (fold (step2_folder P fs xs) folders s)) \<and>
    set (fileSearchDirectory (fold (step2_folder P fs xs) folders s))
      \<subseteq> set (fileSearchDirectory s) \<union> set (step2_paths P xs (Some folders)) \<and>
    set (invalidSearchDirectory s) \<subseteq> set (invalidSearchDirectory (fold (step2_folder P fs xs) folders s)) \<and>
    set (invalidSearchDirectory (fold (step2_folder P fs xs) folders s))
      \<subseteq> set (invalidSearchDirectory s) \<union> set (step2_paths P xs (Some folders))"
  proof (rule fold_invariant [where I = "\<lambda>t. set (fileSearchDirectory s) \<subseteq> set (fileSearchDirectory t) \<and>
      set (fileSearchDirectory t) \<subseteq> set (fileSearchDirectory s) \<union> set (step2_paths P xs (Some folders)) \<and>
      set (invalidSearchDirectory s) \<subseteq> set (invalidSearchDirectory t) \<and>
      set (invalidSearchDirectory t) \<subseteq> set (invalidSearchDirectory s) \<union> set (step2_paths P xs (Some folders))"],
    goal_cases)
    case 1
    show ?case by auto
  next
    case (2 f t)
    have sub: "set (folder # joined_paths P xs folder) \<subseteq> set (step2_paths P xs (Some folders))"
      if "folder \<in> set folders" for folder
      using that by (auto simp: step2_paths_def)
    from 2 sub [of f] step2_folder_bounds [of t P fs xs f] show ?case
      by (simp only: set_simps) blast
  qed
  with Some show ?thesis by (simp add: step2_def)
qed

subsection \<open>Step 1 puts each occurrence it handles into exactly one list\<close>

lemma step1_dir_mset:
  "mset (fileSearchDirectory (step1_dir P config fs d s)) +
   mset (invalidSearchDirectory (step1_dir P config fs d s)) =
     mset (fileSearchDirectory s) + mset (invalidSearchDirectory s) +
     (if step1_handles P config d then {#d#} else {#})"
  by (simp add: step1_dir_cases step1_handles_def)

lemma step1_mset:
  "mset (fileSearchDirectory (step1 P config fs xs s)) +
   mset (invalidSearchDirectory (step1 P config fs xs s)) =
     mset (fileSearchDirectory s) + mset (invalidSearchDirectory s) +
     mset (filter (step1_handles P config) xs)"
proof (induction xs arbitrary: s)
  case Nil
  show ?case by (simp add: step1_def)
next
  case (Cons x xs)
  show ?case
    unfolding step1_Cons Cons.IH step1_dir_mset by simp
qed

lemma step1_unc_never_active:
  assumes "unc_excluded P config d" and "d \<notin> set (fileSearchDirectory s)"
  shows "d \<notin> set (fileSearchDirectory (step1 P config fs xs s))"
  unfolding step1_def
proof (rule fold_invariant [where I = "\<lambda>t. d \<notin> set (fileSearchDirectory t)"], goal_cases)
  case 1
  show ?case by (rule assms(2))
next
  case (2 x t)
  with assms(1) show ?case
    by (auto simp: step1_dir_cases)
qed

subsection \<open>Which paths are handed to \<open>isDirectory\<close>\<close>

lemma isDirectory_log:
  "map fst (stat_log (snd (isDirectory fs p w))) = map fst (stat_log w) @ [p]"
  by (simp add: isDirectory_eq)

lemma step1_dir_log:
  "map fst (stat_log (env (step1_dir P config fs d s))) =
     map fst (stat_log (env s)) @ (if step1_checks P config d then [d] else [])"
  by (simp add: step1_dir_cases step1_checks_def isDirectory_log)

lemma step1_log:
  "map fst (stat_log (env (step1 P config fs xs s))) =
     map fst (stat_log (env s)) @ filter (step1_checks P config) xs"
proof (induction xs arbitrary: s)
  case Nil
  show ?case by (simp add: step1_def)
next
  case (Cons x xs)
  show ?case
    unfolding step1_Cons Cons.IH step1_dir_log by simp
qed

lemma step2_extdir_log:
  "map fst (stat_log (env (step2_extdir P fs folder e s))) =
     map fst (stat_log (env s)) @ (if isDirectPath P e then [] else [path_join P folder e])"
  by (simp add: step2_extdir_cases isDirectory_log)

lemma step2_inner_log:
  "map fst (stat_log (env (fold (step2_extdir P fs folder) xs s))) =
     map fst (stat_log (env s)) @ joined_paths P xs folder"
proof (induction xs arbitrary: s)
  case Nil
  show ?case by (simp add: joined_paths_def)
next
  case (Cons x xs)
  show ?case
    unfolding fold_simps Cons.IH step2_extdir_log by (simp add: joined_paths_def)
qed

lemma step2_folder_log:
  "map fst (stat_log (env (step2_folder P fs xs folder s))) =
     map fst (stat_log (env s)) @ joined_paths P xs folder"
  by (simp add: step2_folder_def step2_inner_log)

lemma step2_log:
  "map fst (stat_log (env (step2 P fs xs ws s))) =
     map fst (stat_log (env s)) @ step2_checked P xs ws"
proof (cases ws)
  case None
  then show ?thesis by (simp add: step2_def step2_checked_def)
next
  case (Some folders)
  have "map fst (stat_log (env (fold (step2_folder P fs xs) folders s))) =
     map fst (stat_log (env s)) @ concat (map (joined_paths P xs) folders)"
  proof (induction folders arbitrary: s)
    case Nil
    show ?case by simp
  next
    case (Cons f folders)
    show ?case
      unfolding fold_simps Cons.IH step2_folder_log by simp
  qed
  with Some show ?thesis by (simp add: step2_def step2_checked_def)
qed

subsection \<open>A path whose check does not say "directory" is in the invalid list\<close>

lemma failing_recorded_step1_dir:
  "failing_recorded n s \<Longrightarrow> failing_recorded n (step1_dir P config fs d s)"
  by (auto simp: failing_recorded_def step1_dir_cases isDirectory_eq)

lemma failing_recorded_step2_extdir:
  "failing_recorded n s \<Longrightarrow> failing_recorded n (step2_extdir P fs folder e s)"
  by (auto simp: failing_recorded_def step2_extdir_cases isDirectory_eq)

lemma failing_recorded_step1:
  "failing_recorded n s \<Longrightarrow> failing_recorded n (step1 P config fs xs s)"
  unfolding step1_def
  by (rule fold_invariant [where I = "failing_recorded n"])
    (simp_all add: failing_recorded_step1_dir)

lemma failing_recorded_step2_folder:
  assumes "failing_recorded n s"
  shows "failing_recorded n (step2_folder P fs xs folder s)"
  unfolding step2_folder_def
proof (rule fold_invariant [where I = "failing_recorded n"], goal_cases)
  case 1
  from assms show ?case by (simp add: failing_recorded_def)
next
  case (2 x t)
  then show ?case by (simp add: failing_recorded_step2_extdir)
qed

lemma failing_recorded_step2:
  "failing_recorded n s \<Longrightarrow> failing_recorded n (step2 P fs xs ws s)"
proof (cases ws)
  case None
  assume "failing_recorded n s"
  with None show ?thesis by (simp add: step2_def)
next
  case (Some folders)
  assume "failing_recorded n s"
  then have "failing_recorded n (fold (step2_folder P fs xs) folders s)"
    by (rule fold_invariant [where I = "failing_recorded n"])
      (simp add: failing_recorded_step2_folder)
  with Some show ?thesis by (simp add: step2_def)
qed

lemma failing_recorded_before_filter:
  "failing_recorded (length (stat_log (env s0))) (before_filter P config fs extsdir ws s0)"
  unfolding before_filter_def
  by (rule failing_recorded_step2, rule failing_recorded_step1)
    (simp add: failing_recorded_def)

subsection \<open>The result in terms of the lists built by the two steps\<close>

lemma final_lists:
  "set (fileSearchDirectory (initExtensionSearchPaths P config fs extsdir ws s0)) =
     set (fileSearchDirectory (before_filter P config fs extsdir ws s0))"
  "set (invalidSearchDirectory (initExtensionSearchPaths P config fs extsdir ws s0)) =
     set (invalidSearchDirectory (before_filter P config fs extsdir ws s0))"
  "env (initExtensionSearchPaths P config fs extsdir ws s0) =
     env (before_filter P config fs extsdir ws s0)"
  by (simp_all add: initExtensionSearchPaths_def before_filter_def Let_def)

section \<open>Facts about the diagnostics\<close>

subsection \<open>What the two loops collect\<close>

lemma update_fresh: "k \<notin> fst ` set al \<Longrightarrow> AList.update k v al = al @ [(k, v)]"
  by (induction al) auto

lemma fold_update_distinct:
  "distinct (map fst m) \<Longrightarrow> fst ` set m \<inter> fst ` set acc = {} \<Longrightarrow>
   fold (\<lambda>(f, value). AList.update f value) m acc = acc @ m"
proof (induction m arbitrary: acc)
  case Nil
  show ?case by simp
next
  case (Cons x m)
  obtain k v where x: "x = (k, v)" by (cases x)
  from Cons.prems have fresh: "k \<notin> fst ` set acc" by (auto simp: x)
  have "fold (\<lambda>(f, value). AList.update f value) m (acc @ [(k, v)]) = (acc @ [(k, v)]) @ m"
    using Cons.prems by (intro Cons.IH) (auto simp: x)
  then show ?case by (simp add: x update_fresh [OF fresh])
qed

lemma push_diagnostic_distinct:
  "distinct (map fst m) \<Longrightarrow> distinct (map fst (push_diagnostic f d m))"
  by (auto simp: push_diagnostic_def distinct_update split: option.splits)

lemma all_diagnostics_update_new:
  "map_of m f = None \<Longrightarrow>
   mset (all_diagnostics (AList.update f [d] m)) = mset (all_diagnostics m) + {#d#}"
  by (induction m) (auto simp: all_diagnostics_def split: if_splits)

lemma all_diagnostics_update_old:
  "map_of m f = Some arr \<Longrightarrow>
   mset (all_diagnostics (AList.update f (arr @ [d]) m)) = mset (all_diagnostics m) + {#d#}"
  by (induction m) (auto simp: all_diagnostics_def split: if_splits)

lemma all_diagnostics_push:
  "mset (all_diagnostics (push_diagnostic f d m)) = mset (all_diagnostics m) + {#d#}"
  by (cases "map_of m f")
    (simp_all add: push_diagnostic_def all_diagnostics_update_new all_diagnostics_update_old)

lemma paragraph_loop:
  "distinct (map fst m) \<Longrightarrow>
   distinct (map fst (fold (paragraph_step toLowerCase refs sev) ps m)) \<and>
   mset (all_diagnostics (fold (paragraph_step toLowerCase refs sev) ps m)) =
     mset (all_diagnostics m) +
     mset (map (\<lambda>(key, token). paragraph_diagnostic sev key token)
       (filter (\<lambda>(key, token). targetReferences refs (toLowerCase key) = None) ps))"
proof (induction ps arbitrary: m)
  case Nil
  then show ?case by simp
next
  case (Cons p ps)
  obtain key token where p: "p = (key, token)" by (cases p)
  have d: "distinct (map fst (paragraph_step toLowerCase refs sev p m))"
    using Cons.prems by (simp add: p paragraph_step_def push_diagnostic_distinct)
  from Cons.IH [OF d] show ?case
    by (simp add: p) (simp add: paragraph_step_def all_diagnostics_push)
qed

lemma section_loop:
  "distinct (map fst m) \<Longrightarrow>
   distinct (map fst (fold (section_step toLowerCase refs sev) ps m)) \<and>
   mset (all_diagnostics (fold (section_step toLowerCase refs sev) ps m)) =
     mset (all_diagnostics m) +
     mset (map (\<lambda>(key, token). section_diagnostic sev key token)
       (filter (\<lambda>(key, token). inProcedureDivision token \<and>
          targetReferences refs (toLowerCase key) = None) ps))"
proof (induction ps arbitrary: m)
  case Nil
  then show ?case by simp
next
  case (Cons p ps)
  obtain key token where p: "p = (key, token)" by (cases p)
  have d: "distinct (map fst (section_step toLowerCase refs sev p m))"
    using Cons.prems by (simp add: p section_step_def push_diagnostic_distinct)
  from Cons.IH [OF d] show ?case
    by (simp add: p) (simp add: section_step_def all_diagnostics_push)
qed

lemma setup_keeps:
  "enabled (setupCOBOLQuickParse scan document s) = enabled s"
  "diagCollect (setupCOBOLQuickParse scan document s) = diagCollect s"
  "collection (setupCOBOLQuickParse scan document s) = collection s"
  by (auto simp: setupCOBOLQuickParse_def Let_def split: option.splits prod.splits)

lemma updateDiagnostics_parse:
  "enabled s \<Longrightarrow>
   current (updateDiagnostics toLowerCase scan document s) = current (setupCOBOLQuickParse scan document s) \<and>
   sourceRefs (updateDiagnostics toLowerCase scan document s) = sourceRefs (setupCOBOLQuickParse scan document s)"
  by (auto simp: updateDiagnostics_def Let_def split: option.splits)

lemma updateDiagnostics_has_parse:
  assumes "enabled s" and "current s = None \<or> sourceRefs s \<noteq> None"
  shows "\<exists>qp refs. current (updateDiagnostics toLowerCase scan document s) = Some qp \<and>
           sourceRefs (updateDiagnostics toLowerCase scan document s) = Some refs"
proof -
  obtain q r where "scan (scans s) document = (q, r)"
    by (cases "scan (scans s) document")
  with assms(2) have "\<exists>qp refs. current (setupCOBOLQuickParse scan document s) = Some qp \<and>
      sourceRefs (setupCOBOLQuickParse scan document s) = Some refs"
    by (auto simp: setupCOBOLQuickParse_def Let_def split: option.splits)
  with updateDiagnostics_parse [OF assms(1), of toLowerCase scan document] show ?thesis
    by simp
qed

lemma updateDiagnostics_emitted:
  assumes "enabled s"
    and "current (updateDiagnostics toLowerCase scan document s) = Some qp"
    and "sourceRefs (updateDiagnostics toLowerCase scan document s) = Some refs"
  shows "mset (all_diagnostics (collection (updateDiagnostics toLowerCase scan document s))) =
     mset (map (\<lambda>(key, token). paragraph_diagnostic (diagCollect s) key token)
            (unreferenced_paragraphs toLowerCase refs qp)) +
     mset (map (\<lambda>(key, token). section_diagnostic (diagCollect s) key token)
            (unreferenced_sections toLowerCase refs qp))"
proof -
  define s1 where "s1 = setupCOBOLQuickParse scan document s"
  define m1 where "m1 = fold (paragraph_step toLowerCase refs (diagCollect s)) (DAList.impl_of (paragraphs qp)) []"
  define m2 where "m2 = fold (section_step toLowerCase refs (diagCollect s)) (DAList.impl_of (sections qp)) m1"
  from assms updateDiagnostics_parse [OF assms(1), of toLowerCase scan document]
  have c: "current s1 = Some qp" and r: "sourceRefs s1 = Some refs"
    by (simp_all add: s1_def)
  have sev: "diagCollect s1 = diagCollect s"
    by (simp add: s1_def setup_keeps)
  have coll: "collection (updateDiagnostics toLowerCase scan document s) =
      fold (\<lambda>(f, value). AList.update f value) m2 []"
    using assms(1) c r
    by (simp add: updateDiagnostics_def s1_def [symmetric] sev m2_def m1_def Let_def)
  have l1: "distinct (map fst m1)"
    "mset (all_diagnostics m1) =
       mset (map (\<lambda>(key, token). paragraph_diagnostic (diagCollect s) key token)
         (unreferenced_paragraphs toLowerCase refs qp))"
    using paragraph_loop [of "[]" toLowerCase refs "diagCollect s" "DAList.impl_of (paragraphs qp)"]
    by (simp_all add: m1_def unreferenced_paragraphs_def all_diagnostics_def)
  have l2: "distinct (map fst m2)"
    "mset (all_diagnostics m2) = mset (all_diagnostics m1) +
       mset (map (\<lambda>(key, token). section_diagnostic (diagCollect s) key token)
         (unreferenced_sections toLowerCase refs qp))"
    using section_loop [OF l1(1), of toLowerCase refs "diagCollect s" "DAList.impl_of (sections qp)"]
    by (simp_all add: m2_def unreferenced_sections_def)
  have "fold (\<lambda>(f, value). AList.update f value) m2 [] = m2"
    using fold_update_distinct [OF l2(1), of "[]"] by simp
  with coll l1(2) l2(2) show ?thesis by simp
qed

subsection \<open>Which table entries are flagged\<close>

lemma msg_differ:
  "k @ '' paragraph is not referenced'' \<noteq> k' @ '' section is not referenced''"
proof
  assume "k @ '' paragraph is not referenced'' = k' @ '' section is not referenced''"
  then have "rev (k @ '' paragraph is not referenced'') = rev (k' @ '' section is not referenced'')"
    by (rule arg_cong)
  then show False by simp
qed

lemma emitted_cases:
  assumes "enabled s"
    and "current (updateDiagnostics toLowerCase scan document s) = Some qp"
    and "sourceRefs (updateDiagnostics toLowerCase scan document s) = Some refs"
    and "d \<in> set (all_diagnostics (collection (updateDiagnostics toLowerCase scan document s)))"
  shows "(\<exists>(key, token) \<in> set (DAList.impl_of (paragraphs qp)).
            d = paragraph_diagnostic (diagCollect s) key token \<and>
            targetReferences refs (toLowerCase key) = None) \<or>
         (\<exists>(key, token) \<in> set (DAList.impl_of (sections qp)).
            d = section_diagnostic (diagCollect s) key token \<and> inProcedureDivision token \<and>
            targetReferences refs (toLowerCase key) = None)"
proof -
  from assms(4) have "d \<in># mset (all_diagnostics (collection (updateDiagnostics toLowerCase scan document s)))"
    by simp
  then have "d \<in> set (map (\<lambda>(key, token). paragraph_diagnostic (diagCollect s) key token)
            (unreferenced_paragraphs toLowerCase refs qp)) \<or>
      d \<in> set (map (\<lambda>(key, token). section_diagnostic (diagCollect s) key token)
            (unreferenced_sections toLowerCase refs qp))"
    unfolding updateDiagnostics_emitted [OF assms(1-3)] by simp
  then show ?thesis
    by (auto simp: unreferenced_paragraphs_def unreferenced_sections_def)
qed

lemma paragraph_emitted_iff:
  assumes "enabled s"
    and "current (updateDiagnostics toLowerCase scan document s) = Some qp"
    and "sourceRefs (updateDiagnostics toLowerCase scan document s) = Some refs"
    and "(key, token) \<in> set (DAList.impl_of (paragraphs qp))"
  shows "paragraph_diagnostic (diagCollect s) key token
           \<in> set (all_diagnostics (collection (updateDiagnostics toLowerCase scan document s)))
         \<longleftrightarrow> targetReferences refs (toLowerCase key) = None"
proof
  assume "paragraph_diagnostic (diagCollect s) key token
           \<in> set (all_diagnostics (collection (updateDiagnostics toLowerCase scan document s)))"
  from emitted_cases [OF assms(1-3) this]
  show "targetReferences refs (toLowerCase key) = None"
    by (auto simp: paragraph_diagnostic_def section_diagnostic_def msg_differ)
next
  assume "targetReferences refs (toLowerCase key) = None"
  with assms(4) have "(key, token) \<in> set (unreferenced_paragraphs toLowerCase refs qp)"
    by (simp add: unreferenced_paragraphs_def)
  then have "paragraph_diagnostic (diagCollect s) key token
      \<in># mset (map (\<lambda>(key, token). paragraph_diagnostic (diagCollect s) key token)
            (unreferenced_paragraphs toLowerCase refs qp))"
    by force
  then have "paragraph_diagnostic (diagCollect s) key token
      \<in># mset (all_diagnostics (collection (updateDiagnostics toLowerCase scan document s)))"
    unfolding updateDiagnostics_emitted [OF assms(1-3)] by simp
  then show "paragraph_diagnostic (diagCollect s) key token
           \<in> set (all_diagnostics (collection (updateDiagnostics toLowerCase scan document s)))"
    by simp
qed



lemma named_diagnostic_unreferenced:
  assumes "enabled s"
    and "current (updateDiagnostics toLowerCase scan document s) = Some qp"
    and "sourceRefs (updateDiagnostics toLowerCase scan document s) = Some refs"
    and "d \<in> set (all_diagnostics (collection (updateDiagnostics toLowerCase scan document s)))"
    and "message d = key @ '' paragraph is not referenced'' \<or>
         message d = key @ '' section is not referenced''"
  shows "targetReferences refs (toLowerCase key) = None"
  using emitted_cases [OF assms(1-4)] assms(5) msg_differ [of key] msg_differ [of _ key]
  by (auto simp: paragraph_diagnostic_def section_diagnostic_def)

subsection \<open>The states a provider can be in\<close>

text \<open>
  \<open>enabled\<close> is set by the constructor and never assigned again, and only
  \<open>setupCOBOLQuickParse\<close>, which a disabled provider never reaches, stores a parse. So a
  provider is enabled or holds no parse: the constructor establishes this and
  \<open>updateDiagnostics\<close> keeps it.
\<close>

lemma new_provider_state:
  "enabled (new_CobolUsageProvider c e) \<or> current (new_CobolUsageProvider c e) = None"
  by (simp add: new_CobolUsageProvider_def)

lemma provider_state_kept:
  "enabled s \<or> current s = None \<Longrightarrow>
   enabled (updateDiagnostics toLowerCase scan document s) \<or>
   current (updateDiagnostics toLowerCase scan document s) = None"
  by (auto simp: updateDiagnostics_def setup_keeps Let_def split: option.splits)

lemma enabled_of_parse:
  assumes "enabled s \<or> current s = None"
    and "current (updateDiagnostics toLowerCase scan document s) = Some qp"
  shows "enabled s"
proof (rule ccontr)
  assume off: "\<not> enabled s"
  then have "updateDiagnostics toLowerCase scan document s = s"
    by (simp add: updateDiagnostics_def)
  with off assms show False by simp
qed

subsection \<open>Looking a name up in a reference set keyed by lowercase names\<close>


subsection \<open>Which diagnostics get a quick fix\<close>

lemma provideCodeActions_filter:
  "provideCodeActions document ds =
     map (comment_out_action document)
       (filter (\<lambda>d. case code d of None \<Rightarrow> True | Some c \<Rightarrow> startsWith c ''noref'') ds)"
  by (induction ds) (auto split: option.splits)

lemma emitted_code_noref:
  assumes "enabled s"
    and "current (updateDiagnostics toLowerCase scan document s) = Some qp"
    and "sourceRefs (updateDiagnostics toLowerCase scan document s) = Some refs"
    and "d \<in> set (all_diagnostics (collection (updateDiagnostics toLowerCase scan document s)))"
  shows "\<exists>key \<in> fst ` (set (DAList.impl_of (paragraphs qp)) \<union> set (DAList.impl_of (sections qp))).
           code d = Some (''noref('' @ key @ '')'') \<and>
           provideCodeActions doc [d] = [comment_out_action doc d]"
proof -
  have act: "provideCodeActions doc [d] = [comment_out_action doc d]"
    if "code d = Some (''noref('' @ key @ '')'')" for key
    using that by (simp add: startsWith_def)
  from emitted_cases [OF assms] consider
    (para) key token where "(key, token) \<in> set (DAList.impl_of (paragraphs qp))"
      "d = paragraph_diagnostic (diagCollect s) key token"
    | (sec) key token where "(key, token) \<in> set (DAList.impl_of (sections qp))"
      "d = section_diagnostic (diagCollect s) key token"
    by blast
  then show ?thesis
  proof cases
    case para
    then have "code d = Some (''noref('' @ key @ '')'')"
      by (simp add: paragraph_diagnostic_def)
    with para(1) act [OF this] show ?thesis by force
  next
    case sec
    then have "code d = Some (''noref('' @ key @ '')'')"
      by (simp add: section_diagnostic_def)
    with sec(1) act [OF this] show ?thesis by force
  qed
qed

section \<open>C1: a slow directory is dropped\<close>

text \<open>
  C1, as amended. Let a configured directory be direct and not excluded as a network
  path, so that step 1 checks it, and let the elapsed time be the difference of the two
  clock readings around that check. If the check takes strictly more than 2000 ms,
  step 1 leaves the active search path as it is and appends the directory to the
  invalid-path list, so the directory is in the final invalid list; it is in the final
  active path only if the same path comes in another way: another occurrence of it in
  the configured list, a workspace folder, or a workspace folder joined with a configured
  directory that is not direct. If the check says "directory" within 2000 ms, step 1
  appends the directory to the active path and it is in the final active path.
\<close>

theorem slow_directory_dropped:
  fixes P config fs pre d post ws s0
  defines "extsdir \<equiv> pre @ d # post"
  defines "s_pre \<equiv> step1 P config fs pre (s0\<lparr>fileSearchDirectory := [], invalidSearchDirectory := []\<rparr>)"
  defines "isdir \<equiv> fst (isDirectory fs d (env s_pre))"
  defines "elapsed \<equiv> performance_now (snd (isDirectory fs d (env s_pre))) - performance_now (env s_pre)"
  defines "s_d \<equiv> step1_dir P config fs d s_pre"
  defines "final \<equiv> initExtensionSearchPaths P config fs extsdir ws s0"
  assumes direct: "isDirectPath P d" and checked: "\<not> unc_excluded P config d"
  shows "(2000 < elapsed \<longrightarrow>
            fileSearchDirectory s_d = fileSearchDirectory s_pre \<and>
            invalidSearchDirectory s_d = invalidSearchDirectory s_pre @ [d] \<and>
            d \<in> set (invalidSearchDirectory final) \<and>
            (d \<in> set (fileSearchDirectory final) \<longrightarrow>
               d \<in> set pre \<or> d \<in> set post \<or> d \<in> set (step2_paths P extsdir ws))) \<and>
         (isdir \<and> elapsed \<le> 2000 \<longrightarrow>
            fileSearchDirectory s_d = fileSearchDirectory s_pre @ [d] \<and>
            invalidSearchDirectory s_d = invalidSearchDirectory s_pre \<and>
            d \<in> set (fileSearchDirectory final))"
proof -
  define s1 where "s1 = s0\<lparr>fileSearchDirectory := [], invalidSearchDirectory := []\<rparr>"
  define s2 where "s2 = step1 P config fs post s_d"
  define s3 where "s3 = step2 P fs extsdir ws s2"
  have built: "before_filter P config fs extsdir ws s0 = s3"
    by (simp add: before_filter_def s3_def s2_def s_d_def s_pre_def extsdir_def
        step1_append step1_Cons)
  have fin_file: "set (fileSearchDirectory final) = set (fileSearchDirectory s3)"
    and fin_inv: "set (invalidSearchDirectory final) = set (invalidSearchDirectory s3)"
    unfolding final_def final_lists built by simp_all
  have pre_file: "set (fileSearchDirectory s_pre) \<subseteq> set pre"
    using step1_file_bounds [of "s0\<lparr>fileSearchDirectory := [], invalidSearchDirectory := []\<rparr>" P config fs pre]
    by (simp add: s_pre_def)
  note post_file = step1_file_bounds [of s_d P config fs post, folded s2_def]
  note post_inv = step1_invalid_bounds [of s_d P config fs post, folded s2_def]
  note two = step2_bounds [of s2 P fs extsdir ws, folded s3_def]
  have slow: "fileSearchDirectory s_d = fileSearchDirectory s_pre \<and>
      invalidSearchDirectory s_d = invalidSearchDirectory s_pre @ [d]" if "2000 < elapsed"
    using that direct checked
    by (simp add: s_d_def step1_dir_cases elapsed_def performance_now_def)
  have fast: "fileSearchDirectory s_d = fileSearchDirectory s_pre @ [d] \<and>
      invalidSearchDirectory s_d = invalidSearchDirectory s_pre" if "isdir" "elapsed \<le> 2000"
    using that direct checked
    by (simp add: s_d_def step1_dir_cases elapsed_def isdir_def performance_now_def)
  have A: "d \<in> set (invalidSearchDirectory final)" if "2000 < elapsed"
    using slow [OF that] post_inv two fin_inv by auto
  have B: "d \<in> set pre \<or> d \<in> set post \<or> d \<in> set (step2_paths P extsdir ws)"
    if "2000 < elapsed" "d \<in> set (fileSearchDirectory final)"
    using slow [OF that(1)] that(2) post_file two fin_file pre_file by auto
  have C: "d \<in> set (fileSearchDirectory final)" if "isdir" "elapsed \<le> 2000"
    using fast [OF that] post_file two fin_file by auto
  from slow fast A B C show ?thesis by blast
qed

text \<open>
  An instance: \<open>/slow\<close> takes 2500 ms and ends in the invalid list only, \<open>/fast\<close>
  takes 3 ms and ends in the active path.
\<close>

theorem slow_directory_dropped_witness:
  "isDirectPath sample_platform ''/slow'' \<and> \<not> unc_excluded sample_platform plain_settings ''/slow'' \<and>
   ''/slow'' \<in> set (invalidSearchDirectory
      (initExtensionSearchPaths sample_platform plain_settings mixed_fs [''/slow'', ''/fast''] (Some [''/ws'']) fresh_state)) \<and>
   ''/slow'' \<notin> set (fileSearchDirectory
      (initExtensionSearchPaths sample_platform plain_settings mixed_fs [''/slow'', ''/fast''] (Some [''/ws'']) fresh_state)) \<and>
   ''/fast'' \<in> set (fileSearchDirectory
      (initExtensionSearchPaths sample_platform plain_settings mixed_fs [''/slow'', ''/fast''] (Some [''/ws'']) fresh_state))"
  using slow_directory_dropped [where P = sample_platform and config = plain_settings and fs = mixed_fs
      and pre = "[]" and d = "''/slow''" and post = "[''/fast'']" and ws = "Some [''/ws'']" and ?s0.0 = fresh_state]
    slow_directory_dropped [where P = sample_platform and config = plain_settings and fs = mixed_fs
      and pre = "[''/slow'']" and d = "''/fast''" and post = "[]" and ws = "Some [''/ws'']" and ?s0.0 = fresh_state]
  by (simp add: run_simps)

text \<open>
  C1 as stated fails: \<open>/ws\<close> is configured as a direct directory and is the
  workspace folder as well. Its check takes 2001 ms, step 1 puts it into the invalid
  list, and step 2 pushes the workspace folder onto the active path without a check, so
  the slow directory is in the active path after all.
\<close>

theorem slow_directory_counterexample:
  "isDirectPath sample_platform ''/ws'' \<and> \<not> unc_excluded sample_platform plain_settings ''/ws'' \<and>
   isDirectory slow_fs ''/ws'' (env fresh_state) =
     (True, \<lparr>clock = 2001, stat_log = [(''/ws'', Some a_directory)]\<rparr>) \<and>
   fileSearchDirectory
     (initExtensionSearchPaths sample_platform plain_settings slow_fs [''/ws''] (Some [''/ws'']) fresh_state) = [''/ws''] \<and>
   invalidSearchDirectory
     (initExtensionSearchPaths sample_platform plain_settings slow_fs [''/ws''] (Some [''/ws'']) fresh_state) = [''/ws'']"
  by (simp add: run_simps)

section \<open>C2: a referenced paragraph is not flagged\<close>

text \<open>
  C2. Let the provider be in a state it can be in (enabled, or holding no parse), and
  let \<open>updateDiagnostics\<close> leave it holding the parse \<open>qp\<close> of the scanned document and
  the reference set \<open>refs\<close>. Then for every paragraph name declared in \<open>qp\<close>: if the
  lowercased name is present in \<open>targetReferences\<close>, no emitted diagnostic carries that
  paragraph's "is not referenced" message; and the paragraph's diagnostic is emitted
  exactly when the lowercased name is absent from \<open>targetReferences\<close>.
\<close>

theorem paragraph_flagged_iff_unreferenced:
  fixes toLowerCase :: "string \<Rightarrow> string" and scan :: "'r scanner"
    and document s qp refs key token
  defines "s' \<equiv> updateDiagnostics toLowerCase scan document s"
  assumes state: "enabled s \<or> current s = None"
    and parse: "current s' = Some qp"
    and rs: "sourceRefs s' = Some refs"
    and declared: "(key, token) \<in> set (DAList.impl_of (paragraphs qp))"
  shows "(targetReferences refs (toLowerCase key) \<noteq> None \<longrightarrow>
            (\<forall>d \<in> set (all_diagnostics (collection s')).
               message d \<noteq> key @ '' paragraph is not referenced'')) \<and>
         (paragraph_diagnostic (diagCollect s) key token \<in> set (all_diagnostics (collection s'))
            \<longleftrightarrow> targetReferences refs (toLowerCase key) = None)"
proof -
  have on: "enabled s"
    using state parse unfolding s'_def by (rule enabled_of_parse)
  note st = on parse [unfolded s'_def] rs [unfolded s'_def]
  have iff: "paragraph_diagnostic (diagCollect s) key token \<in> set (all_diagnostics (collection s'))
      \<longleftrightarrow> targetReferences refs (toLowerCase key) = None"
    unfolding s'_def by (rule paragraph_emitted_iff [OF st declared])
  have none: "message d \<noteq> key @ '' paragraph is not referenced''"
    if "targetReferences refs (toLowerCase key) \<noteq> None"
      "d \<in> set (all_diagnostics (collection s'))" for d
  proof
    assume "message d = key @ '' paragraph is not referenced''"
    then have "targetReferences refs (toLowerCase key) = None"
      using named_diagnostic_unreferenced [OF st that(2) [unfolded s'_def], of key] by simp
    with that(1) show False by simp
  qed
  from iff none show ?thesis by blast
qed

text \<open>
  An instance: the program performs \<open>MAIN-PARA\<close>, so the paragraph \<open>Main-Para\<close> is not
  flagged; nothing performs \<open>Unused-Para\<close>, which is flagged.
\<close>

theorem paragraph_flagged_iff_unreferenced_witness:
  "(enabled enabled_provider \<or> current enabled_provider = None) \<and>
   current (updateDiagnostics ascii_toLowerCase sample_scan sample_document enabled_provider)
     = Some (fst (sample_scan 0 sample_document)) \<and>
   sourceRefs (updateDiagnostics ascii_toLowerCase sample_scan sample_document enabled_provider)
     = Some (snd (sample_scan 0 sample_document)) \<and>
   targetReferences (snd (sample_scan 0 sample_document)) (ascii_toLowerCase ''Main-Para'') = Some [12] \<and>
   paragraph_diagnostic Information ''Main-Para'' (sample_token ''Main-Para'' 10 True)
     \<notin> set (all_diagnostics (collection
          (updateDiagnostics ascii_toLowerCase sample_scan sample_document enabled_provider))) \<and>
   targetReferences (snd (sample_scan 0 sample_document)) (ascii_toLowerCase ''Unused-Para'') = None \<and>
   paragraph_diagnostic Information ''Unused-Para'' (sample_token ''Unused-Para'' 20 True)
     \<in> set (all_diagnostics (collection
          (updateDiagnostics ascii_toLowerCase sample_scan sample_document enabled_provider)))"
  using paragraph_flagged_iff_unreferenced [where toLowerCase = ascii_toLowerCase
      and scan = sample_scan and document = sample_document
      and s = enabled_provider and qp = "fst (sample_scan 0 sample_document)"
      and refs = "snd (sample_scan 0 sample_document)"
      and key = "''Main-Para''" and token = "sample_token ''Main-Para'' 10 True"]
    paragraph_flagged_iff_unreferenced [where toLowerCase = ascii_toLowerCase
      and scan = sample_scan and document = sample_document
      and s = enabled_provider and qp = "fst (sample_scan 0 sample_document)"
      and refs = "snd (sample_scan 0 sample_document)"
      and key = "''Unused-Para''" and token = "sample_token ''Unused-Para'' 20 True"]
  by (simp add: sample_simps)

section \<open>C3: names are compared without regard to letter case\<close>



section \<open>C4: the code of a diagnostic and the quick fix\<close>

text \<open>
  C4. Every diagnostic that \<open>updateDiagnostics\<close> emits carries the code
  \<open>noref(name)\<close> (lemma \<open>emitted_code_noref\<close>), and a diagnostic whose code does not
  start with \<open>noref\<close> is skipped. But the quick fix is not offered for those
  diagnostics exactly: a diagnostic that has no code at all passes the test
  \<open>code !== undefined && ...\<close> and gets a "Comment out" action too, with an undefined
  code as the command's third argument. Here the code is run on such a diagnostic, and
  on the same diagnostic with the code \<open>E42\<close>, which is skipped.
\<close>

theorem provideCodeActions_undefined_code:
  "code foreign_diagnostic = None \<and>
   provideCodeActions sample_document [foreign_diagnostic] =
     [comment_out_action sample_document foreign_diagnostic] \<and>
   title (comment_out_action sample_document foreign_diagnostic) =
     ''Comment out '' @ [CHR 0x27] @ ''spelling'' @ [CHR 0x27] \<and>
   arguments (comment_out_action sample_document foreign_diagnostic) =
     (''file:///ws/prog.cbl'', 240, None) \<and>
   provideCodeActions sample_document [foreign_diagnostic\<lparr>code := Some ''E42''\<rparr>] = []"
  by (simp add: sample_simps)

section \<open>C5: flagged names lie in the procedure division\<close>



section \<open>C6: network paths, and one list per configured path\<close>

text \<open>
  C6, as amended. When \<open>disable_unc_copybooks_directories\<close> is set, step 1 handles
  a network path by appending it to the invalid-path list and nothing else: no stat call
  is made for it and the active path is untouched. Such a configured path is therefore
  in the final invalid list, and in the final active path only if step 2 supplies the
  same path, as a workspace folder or as a folder joined with a directory that is not
  direct. Step 1 puts each occurrence of a configured path it handles into exactly one
  of the two lists and nothing else into either. Every such path is thus in at least one
  of the final lists, and in both only if it is configured more than once or is among
  the paths of step 2.
\<close>

theorem unc_directory_excluded:
  fixes P config fs extsdir ws s0 d
  defines "s2 \<equiv> step1 P config fs extsdir (s0\<lparr>fileSearchDirectory := [], invalidSearchDirectory := []\<rparr>)"
  defines "final \<equiv> initExtensionSearchPaths P config fs extsdir ws s0"
  shows "(unc_excluded P config d \<longrightarrow>
            (\<forall>s. step1_dir P config fs d s =
                   s\<lparr>invalidSearchDirectory := invalidSearchDirectory s @ [d]\<rparr>) \<and>
            (d \<in> set extsdir \<longrightarrow>
               d \<in> set (invalidSearchDirectory final) \<and>
               d \<notin> set (fileSearchDirectory s2) \<and>
               d \<notin> set (map fst (drop (length (stat_log (env s0))) (stat_log (env s2)))) \<and>
               (d \<in> set (fileSearchDirectory final) \<longrightarrow> d \<in> set (step2_paths P extsdir ws)))) \<and>
         mset (fileSearchDirectory s2) + mset (invalidSearchDirectory s2) =
           mset (filter (step1_handles P config) extsdir) \<and>
         (d \<in> set extsdir \<and> step1_handles P config d \<longrightarrow>
            (d \<in> set (fileSearchDirectory final) \<or> d \<in> set (invalidSearchDirectory final)) \<and>
            (d \<in> set (fileSearchDirectory final) \<and> d \<in> set (invalidSearchDirectory final) \<longrightarrow>
               1 < count (mset extsdir) d \<or> d \<in> set (step2_paths P extsdir ws)))"
proof -
  define s1 where "s1 = s0\<lparr>fileSearchDirectory := [], invalidSearchDirectory := []\<rparr>"
  define s3 where "s3 = step2 P fs extsdir ws s2"
  have built: "before_filter P config fs extsdir ws s0 = s3"
    by (simp add: before_filter_def s3_def s2_def)
  have fin_file: "set (fileSearchDirectory final) = set (fileSearchDirectory s3)"
    and fin_inv: "set (invalidSearchDirectory final) = set (invalidSearchDirectory s3)"
    unfolding final_def final_lists built by simp_all
  note two = step2_bounds [of s2 P fs extsdir ws, folded s3_def]
  have parts: "mset (fileSearchDirectory s2) + mset (invalidSearchDirectory s2) =
      mset (filter (step1_handles P config) extsdir)"
    using step1_mset [of P config fs extsdir s1] by (simp add: s2_def s1_def)
  have in_one: "d \<in> set (fileSearchDirectory s2) \<or> d \<in> set (invalidSearchDirectory s2)"
    if "d \<in> set extsdir" "step1_handles P config d"
  proof -
    from that have "d \<in># mset (filter (step1_handles P config) extsdir)" by simp
    then have "d \<in># mset (fileSearchDirectory s2) + mset (invalidSearchDirectory s2)"
      by (simp only: parts)
    then show ?thesis by simp
  qed
  have unc_step: "step1_dir P config fs d s =
      s\<lparr>invalidSearchDirectory := invalidSearchDirectory s @ [d]\<rparr>"
    if "unc_excluded P config d" for s
    using that by (simp add: step1_dir_cases)
  have unc_not_active: "d \<notin> set (fileSearchDirectory s2)" if "unc_excluded P config d"
    unfolding s2_def by (rule step1_unc_never_active [OF that]) simp
  have log: "map fst (drop (length (stat_log (env s0))) (stat_log (env s2))) =
      filter (step1_checks P config) extsdir"
  proof -
    have "map fst (stat_log (env s2)) = map fst (stat_log (env s0)) @ filter (step1_checks P config) extsdir"
      using step1_log [of P config fs extsdir s1] by (simp add: s2_def s1_def)
    then have "drop (length (stat_log (env s0))) (map fst (stat_log (env s2))) =
        filter (step1_checks P config) extsdir"
      by simp
    then show ?thesis by (simp add: drop_map)
  qed
  have unc_not_checked:
    "d \<notin> set (map fst (drop (length (stat_log (env s0))) (stat_log (env s2))))"
    if "unc_excluded P config d"
    unfolding log using that by (simp add: step1_checks_def)
  have unc_invalid: "d \<in> set (invalidSearchDirectory final)"
    if "unc_excluded P config d" "d \<in> set extsdir"
  proof -
    from that have "step1_handles P config d" by (simp add: step1_handles_def)
    from in_one [OF that(2) this] unc_not_active [OF that(1)]
    have "d \<in> set (invalidSearchDirectory s2)" by simp
    with two fin_inv show ?thesis by auto
  qed
  have unc_only_step2: "d \<in> set (step2_paths P extsdir ws)"
    if "unc_excluded P config d" "d \<in> set (fileSearchDirectory final)"
    using unc_not_active [OF that(1)] that(2) two fin_file by auto
  have at_least: "d \<in> set (fileSearchDirectory final) \<or> d \<in> set (invalidSearchDirectory final)"
    if "d \<in> set extsdir" "step1_handles P config d"
    using in_one [OF that] two fin_file fin_inv by auto
  have at_most: "1 < count (mset extsdir) d \<or> d \<in> set (step2_paths P extsdir ws)"
    if both: "d \<in> set (fileSearchDirectory final)" "d \<in> set (invalidSearchDirectory final)"
  proof (cases "d \<in> set (step2_paths P extsdir ws)")
    case True
    then show ?thesis by simp
  next
    case False
    with both two fin_file fin_inv
    have m: "d \<in> set (fileSearchDirectory s2)" "d \<in> set (invalidSearchDirectory s2)"
      by auto
    have "0 < count (mset (fileSearchDirectory s2)) d"
      by (rule count_mset_gt_0 [OF m(1)])
    moreover have "0 < count (mset (invalidSearchDirectory s2)) d"
      by (rule count_mset_gt_0 [OF m(2)])
    ultimately have "2 \<le> count (mset (fileSearchDirectory s2) + mset (invalidSearchDirectory s2)) d"
      unfolding count_union by linarith
    then have "2 \<le> count (mset (filter (step1_handles P config) extsdir)) d"
      by (simp only: parts)
    moreover have "count (mset (filter (step1_handles P config) extsdir)) d \<le> count (mset extsdir) d"
      by simp
    ultimately show ?thesis by simp
  qed
  from unc_step unc_invalid unc_not_active unc_not_checked unc_only_step2 parts at_least at_most
  show ?thesis by blast
qed

text \<open>
  An instance: with the setting on, the UNC path ends in the invalid list only and
  is never handed to \<open>isDirectory\<close>; \<open>/fast\<close> ends in the active path only.
\<close>

theorem unc_directory_excluded_witness:
  "unc_excluded sample_platform unc_disabled_settings unc_share \<and>
   step1_handles sample_platform unc_disabled_settings ''/fast'' \<and>
   unc_share \<in> set [unc_share, ''/fast'', ''/gone''] \<and>
   unc_share \<in> set (invalidSearchDirectory
      (initExtensionSearchPaths sample_platform unc_disabled_settings mixed_fs [unc_share, ''/fast'', ''/gone'']
         (Some [''/ws'']) fresh_state)) \<and>
   unc_share \<notin> set (fileSearchDirectory
      (initExtensionSearchPaths sample_platform unc_disabled_settings mixed_fs [unc_share, ''/fast'', ''/gone'']
         (Some [''/ws'']) fresh_state)) \<and>
   ''/fast'' \<in> set (fileSearchDirectory
      (initExtensionSearchPaths sample_platform unc_disabled_settings mixed_fs [unc_share, ''/fast'', ''/gone'']
         (Some [''/ws'']) fresh_state)) \<and>
   ''/fast'' \<notin> set (invalidSearchDirectory
      (initExtensionSearchPaths sample_platform unc_disabled_settings mixed_fs [unc_share, ''/fast'', ''/gone'']
         (Some [''/ws'']) fresh_state)) \<and>
   map fst (stat_log (env
      (initExtensionSearchPaths sample_platform unc_disabled_settings mixed_fs [unc_share, ''/fast'', ''/gone'']
         (Some [''/ws'']) fresh_state))) = [''/fast'', ''/gone'']"
  using unc_directory_excluded [where P = sample_platform and config = unc_disabled_settings and fs = mixed_fs
      and extsdir = "[unc_share, ''/fast'', ''/gone'']" and ws = "Some [''/ws'']"
      and ?s0.0 = fresh_state and d = unc_share]
    unc_directory_excluded [where P = sample_platform and config = unc_disabled_settings and fs = mixed_fs
      and extsdir = "[unc_share, ''/fast'', ''/gone'']" and ws = "Some [''/ws'']"
      and ?s0.0 = fresh_state and d = "''/fast''"]
  by (simp add: run_simps)

text \<open>
  C6 as stated fails: a UNC path that is configured and is also the workspace folder
  ends in both lists, although the setting is on and no check was made.
\<close>

theorem unc_directory_counterexample:
  "unc_excluded sample_platform unc_disabled_settings unc_share \<and>
   isDirectPath sample_platform unc_share \<and>
   fileSearchDirectory
     (initExtensionSearchPaths sample_platform unc_disabled_settings mixed_fs [unc_share] (Some [unc_share]) fresh_state)
     = [unc_share] \<and>
   invalidSearchDirectory
     (initExtensionSearchPaths sample_platform unc_disabled_settings mixed_fs [unc_share] (Some [unc_share]) fresh_state)
     = [unc_share] \<and>
   stat_log (env
     (initExtensionSearchPaths sample_platform unc_disabled_settings mixed_fs [unc_share] (Some [unc_share]) fresh_state))
     = []"
  by (simp add: run_simps)

section \<open>C7: file-system errors are not fatal\<close>

text \<open>
  C7. When \<open>statSync\<close> throws, \<open>isDirectory\<close> and \<open>isFile\<close> return false. Every path
  for which a stat call made by \<open>initExtensionSearchPaths\<close> threw is in the final
  invalid-path list. And the function carries on: whatever the checks answer, the paths
  handed to \<open>isDirectory\<close> are, in order, the configured directories step 1 checks and
  then, for each workspace folder, the folder joined with each configured directory that
  is not direct.
\<close>

theorem stat_failures_not_fatal:
  fixes P config fs extsdir ws s0 sdir w
  defines "final \<equiv> initExtensionSearchPaths P config fs extsdir ws s0"
  defines "calls \<equiv> drop (length (stat_log (env s0))) (stat_log (env final))"
  shows "(fst (statSync fs sdir w) = None \<longrightarrow>
            isDirectory fs sdir w = (False, snd (statSync fs sdir w)) \<and>
            isFile fs sdir w = (False, snd (statSync fs sdir w))) \<and>
         (\<forall>(p, r) \<in> set calls. r = None \<longrightarrow> p \<in> set (invalidSearchDirectory final)) \<and>
         map fst calls = filter (step1_checks P config) extsdir @ step2_checked P extsdir ws"
proof -
  have a: "isDirectory fs sdir w = (False, snd (statSync fs sdir w)) \<and>
      isFile fs sdir w = (False, snd (statSync fs sdir w))"
    if "fst (statSync fs sdir w) = None"
    using that by (cases "statSync fs sdir w") (simp add: isDirectory_def isFile_def)
  have env: "env final = env (before_filter P config fs extsdir ws s0)"
    and inv: "set (invalidSearchDirectory final) =
      set (invalidSearchDirectory (before_filter P config fs extsdir ws s0))"
    by (simp_all add: final_def final_lists)
  have b: "p \<in> set (invalidSearchDirectory final)" if "(p, None) \<in> set calls" for p
    using failing_recorded_before_filter [of s0 P config fs extsdir ws] that
    by (auto simp: failing_recorded_def calls_def env inv is_dir_answer_def)
  have "map fst (stat_log (env final)) =
      map fst (stat_log (env s0)) @ filter (step1_checks P config) extsdir @ step2_checked P extsdir ws"
    by (simp add: env before_filter_def step2_log step1_log)
  then have "drop (length (stat_log (env s0))) (map fst (stat_log (env final))) =
      filter (step1_checks P config) extsdir @ step2_checked P extsdir ws"
    by simp
  then have c: "map fst calls = filter (step1_checks P config) extsdir @ step2_checked P extsdir ws"
    by (simp add: calls_def drop_map)
  from a b c show ?thesis by auto
qed

text \<open>
  An instance: the check of \<open>/gone\<close> throws; it is recorded as invalid, and the
  directories after it are checked and added.
\<close>

theorem stat_failures_not_fatal_witness:
  "fst (statSync mixed_fs ''/gone'' (env fresh_state)) = None \<and>
   isDirectory mixed_fs ''/gone'' (env fresh_state) =
     (False, \<lparr>clock = 1, stat_log = [(''/gone'', None)]\<rparr>) \<and>
   isFile mixed_fs ''/gone'' (env fresh_state) =
     (False, \<lparr>clock = 1, stat_log = [(''/gone'', None)]\<rparr>) \<and>
   (''/gone'', None) \<in> set (stat_log (env
      (initExtensionSearchPaths sample_platform plain_settings mixed_fs [''/gone'', ''/fast'', ''cpy'']
         (Some [''/ws'']) fresh_state))) \<and>
   invalidSearchDirectory
      (initExtensionSearchPaths sample_platform plain_settings mixed_fs [''/gone'', ''/fast'', ''cpy'']
         (Some [''/ws'']) fresh_state) = [''/gone''] \<and>
   fileSearchDirectory
      (initExtensionSearchPaths sample_platform plain_settings mixed_fs [''/gone'', ''/fast'', ''cpy'']
         (Some [''/ws'']) fresh_state) = [''/fast'', ''/ws'', ''/ws/cpy'']"
  using stat_failures_not_fatal [where P = sample_platform and config = plain_settings and fs = mixed_fs
      and extsdir = "[''/gone'', ''/fast'', ''cpy'']" and ws = "Some [''/ws'']"
      and ?s0.0 = fresh_state and sdir = "''/gone''" and w = "env fresh_state"]
  by (simp add: run_simps isFile_def)

section \<open>C8: an unchanged document is not scanned again\<close>

text \<open>
  C8. If the provider holds a parse whose file name is the document's and the
  version it recorded is the document's, \<open>setupCOBOLQuickParse\<close> changes nothing: the
  parse, the shared references and the number of scans stay as they are. If the scanner
  records the file name it is given, a second setup for the same document therefore
  returns what the first returned.
\<close>

theorem setupCOBOLQuickParse_reuses:
  fixes scan :: "'r scanner" and document s qp
  shows "(current s = Some qp \<and> qp_filename qp = fileName document \<and>
          currentVersion s = Some (version document) \<longrightarrow>
            setupCOBOLQuickParse scan document s = s) \<and>
         ((\<forall>n. qp_filename (fst (scan n document)) = fileName document) \<longrightarrow>
            setupCOBOLQuickParse scan document (setupCOBOLQuickParse scan document s) =
              setupCOBOLQuickParse scan document s)"
proof -
  have reuse: "setupCOBOLQuickParse scan document t = t"
    if "current t = Some c" "qp_filename c = fileName document"
      "currentVersion t = Some (version document)" for t :: "'r CobolUsageProvider" and c
    using that by (simp add: setupCOBOLQuickParse_def)
  have rescanned: "\<exists>c. current (setupCOBOLQuickParse scan document t) = Some c \<and>
      qp_filename c = fileName document \<and>
      currentVersion (setupCOBOLQuickParse scan document t) = Some (version document)"
    if "\<forall>n. qp_filename (fst (scan n document)) = fileName document"
    for t :: "'r CobolUsageProvider"
  proof (cases "current t")
    case None
    obtain q r where "scan (scans t) document = (q, r)" by (cases "scan (scans t) document")
    with None that [rule_format, of "scans t"] show ?thesis
      by (simp add: setupCOBOLQuickParse_def)
  next
    case (Some c)
    obtain q r where "scan (scans t) document = (q, r)" by (cases "scan (scans t) document")
    with Some that [rule_format, of "scans t"] show ?thesis
      by (auto simp: setupCOBOLQuickParse_def)
  qed
  have idem: "setupCOBOLQuickParse scan document (setupCOBOLQuickParse scan document t) =
      setupCOBOLQuickParse scan document t"
    if "\<forall>n. qp_filename (fst (scan n document)) = fileName document"
    for t :: "'r CobolUsageProvider"
    using rescanned [OF that, of t] reuse by blast
  from reuse idem show ?thesis by blast
qed

text \<open>
  An instance: the first setup scans once, the second leaves the state alone, and a
  new version of the document is scanned again.
\<close>

theorem setupCOBOLQuickParse_reuses_witness:
  "current (setupCOBOLQuickParse sample_scan sample_document enabled_provider)
     = Some (fst (sample_scan 0 sample_document)) \<and>
   qp_filename (fst (sample_scan 0 sample_document)) = fileName sample_document \<and>
   currentVersion (setupCOBOLQuickParse sample_scan sample_document enabled_provider)
     = Some (version sample_document) \<and>
   scans (setupCOBOLQuickParse sample_scan sample_document enabled_provider) = 1 \<and>
   setupCOBOLQuickParse sample_scan sample_document
     (setupCOBOLQuickParse sample_scan sample_document enabled_provider) =
   setupCOBOLQuickParse sample_scan sample_document enabled_provider \<and>
   scans (setupCOBOLQuickParse sample_scan (sample_document\<lparr>version := 2\<rparr>)
     (setupCOBOLQuickParse sample_scan sample_document enabled_provider)) = 2"
  using setupCOBOLQuickParse_reuses [where scan = sample_scan and document = sample_document
      and s = "setupCOBOLQuickParse sample_scan sample_document enabled_provider"
      and qp = "fst (sample_scan 0 sample_document)"]
    setupCOBOLQuickParse_reuses [where scan = sample_scan and document = sample_document
      and s = enabled_provider]
  by (simp add: sample_simps)

section \<open>C9: loading and saving the metadata cache\<close>

text \<open>
  C9. With a cache directory that is neither null nor empty, \<open>activate\<close> loads the
  symbol caches once and the file cache once, from that directory; without one it loads
  nothing; it never saves. \<open>deactivate\<close> saves the caches if and only if caching is
  enabled, and makes no call at all when caching is disabled.
\<close>

theorem cache_loaded_at_activation_saved_at_deactivation:
  "(cacheDirectory = Some dir \<and> length dir > 0 \<longrightarrow>
      activate cacheDirectory =
        [LoadInMemoryGlobalSymbolCaches dir, LoadInMemoryGlobalFileCache dir] \<and>
      count_list (activate cacheDirectory) (LoadInMemoryGlobalSymbolCaches dir) = 1 \<and>
      count_list (activate cacheDirectory) (LoadInMemoryGlobalFileCache dir) = 1) \<and>
   (cacheDirectory = None \<or> cacheDirectory = Some [] \<longrightarrow> activate cacheDirectory = []) \<and>
   filter is_save (activate cacheDirectory) = [] \<and>
   ((\<exists>c \<in> set (deactivate isCachingEnabled cacheDirectory). is_save c) \<longleftrightarrow> isCachingEnabled) \<and>
   (isCachingEnabled \<longrightarrow>
      deactivate isCachingEnabled cacheDirectory = [SaveInMemoryGlobalCaches cacheDirectory]) \<and>
   (\<not> isCachingEnabled \<longrightarrow> deactivate isCachingEnabled cacheDirectory = [])"
  by (auto simp: activate_def deactivate_def deactivateAsync_def is_save_def split: option.splits)

text \<open>
  An instance for each case.
\<close>

theorem cache_loaded_at_activation_saved_at_deactivation_witness:
  "activate (Some ''/ws/.cache'') =
     [LoadInMemoryGlobalSymbolCaches ''/ws/.cache'', LoadInMemoryGlobalFileCache ''/ws/.cache''] \<and>
   activate None = [] \<and> activate (Some []) = [] \<and>
   deactivate True (Some ''/ws/.cache'') = [SaveInMemoryGlobalCaches (Some ''/ws/.cache'')] \<and>
   deactivate False (Some ''/ws/.cache'') = []"
  using cache_loaded_at_activation_saved_at_deactivation [of "Some ''/ws/.cache''" "''/ws/.cache''" True]
    cache_loaded_at_activation_saved_at_deactivation [of None "[]" False]
    cache_loaded_at_activation_saved_at_deactivation [of "Some []" "[]" False]
    cache_loaded_at_activation_saved_at_deactivation [of "Some ''/ws/.cache''" "''/ws/.cache''" False]
  by simp

section \<open>C10: the two lists are free of duplicates\<close>

text \<open>
  C10. After \<open>initExtensionSearchPaths\<close> returns, the active search path and the
  invalid-path list hold every path at most once. Each is the list built by steps 1 and 2
  with exactly those entries kept that do not occur at an earlier position, in their
  original order, so the order of first occurrences is preserved; and
  \<open>getCombinedCopyBookSearchPath\<close> hands out that active list.
\<close>

theorem initExtensionSearchPaths_no_duplicates:
  fixes P config fs extsdir ws s0
  defines "final \<equiv> initExtensionSearchPaths P config fs extsdir ws s0"
    and "built \<equiv> before_filter P config fs extsdir ws s0"
  shows "distinct (fileSearchDirectory final) \<and>
         distinct (invalidSearchDirectory final) \<and>
         fileSearchDirectory final =
           map (\<lambda>i. fileSearchDirectory built ! i)
             (filter (\<lambda>i. fileSearchDirectory built ! i \<notin> set (take i (fileSearchDirectory built)))
                [0..<length (fileSearchDirectory built)]) \<and>
         invalidSearchDirectory final =
           map (\<lambda>i. invalidSearchDirectory built ! i)
             (filter (\<lambda>i. invalidSearchDirectory built ! i \<notin> set (take i (invalidSearchDirectory built)))
                [0..<length (invalidSearchDirectory built)]) \<and>
         set (fileSearchDirectory final) = set (fileSearchDirectory built) \<and>
         set (invalidSearchDirectory final) = set (invalidSearchDirectory built) \<and>
         getCombinedCopyBookSearchPath final = fileSearchDirectory final"
proof -
  have f: "fileSearchDirectory final = filter_indexOf_pos (fileSearchDirectory built)"
    by (simp add: final_def built_def initExtensionSearchPaths_def before_filter_def Let_def)
  have i: "invalidSearchDirectory final = filter_indexOf_pos (invalidSearchDirectory built)"
    by (simp add: final_def built_def initExtensionSearchPaths_def before_filter_def Let_def)
  have "distinct (fileSearchDirectory final)" "distinct (invalidSearchDirectory final)"
    by (simp_all add: f i)
  moreover have "set (fileSearchDirectory final) = set (fileSearchDirectory built)"
    "set (invalidSearchDirectory final) = set (invalidSearchDirectory built)"
    by (simp_all add: f i)
  moreover note f [unfolded filter_indexOf_pos_nth] i [unfolded filter_indexOf_pos_nth]
  ultimately show ?thesis
    by (simp add: getCombinedCopyBookSearchPath_def)
qed

end
